theory Spec2Isabelle
  imports Complex_Main "HOL-Library.Multiset"
begin

section \<open>Joint CTC/attention beam search of the chainer transformer (recognize, recognize_beam)\<close>

text \<open>
  The development embeds \<^verbatim>\<open>E2E.recognize\<close> and \<^verbatim>\<open>E2E.recognize_beam\<close> of
  \<^verbatim>\<open>espnet/nets/chainer_backend/e2e_asr_transformer.py\<close>.

  Python floats are modelled as \<open>real\<close> (rounding, infinities and NaN are not modelled),
  Python ints as \<open>int\<close>, token ids and array indices as \<open>nat\<close>. Exceptions are values of
  \<open>py_error\<close>; a function that can raise returns \<open>py_error + 'a\<close>.
  The neural collaborators (encoder, decoder, CTC head, language model) and the two helpers
  imported from modules that are not part of the sources at hand (\<^verbatim>\<open>CTCPrefixScore\<close>,
  \<^verbatim>\<open>end_detect\<close>) are parameters. Calls to \<^verbatim>\<open>logging\<close> are left out, except that the
  evaluation of their arguments can raise when \<^verbatim>\<open>char_list\<close> is given.
\<close>

subsection \<open>Python and numpy primitives\<close>

datatype py_error = IndexError | KeyError | AttributeError | NameError | RecursionError

text \<open>\<^verbatim>\<open>int(x)\<close> on a float truncates towards zero.\<close>

definition py_int :: "real \<Rightarrow> int" where
  "py_int x = (if 0 \<le> x then \<lfloor>x\<rfloor> else \<lceil>x\<rceil>)"

text \<open>The slice \<^verbatim>\<open>xs[:k]\<close>: a negative \<open>k\<close> counts from the end.\<close>

definition py_take :: "int \<Rightarrow> 'a list \<Rightarrow> 'a list" where
  "py_take k xs = (if 0 \<le> k then take (nat k) xs else take (length xs - nat (- k)) xs)"

text \<open>
  \<^verbatim>\<open>xp.argsort(a, axis=1)[0]\<close>: the indices of \<open>a\<close> in ascending order of their values
  (ties are taken in index order), and \<^verbatim>\<open>[..., ::-1]\<close>, the same reversed.
\<close>

definition argsort :: "real list \<Rightarrow> nat list" where
  "argsort a = sort_key (\<lambda>k. a ! k) [0..<length a]"

definition argsort_desc :: "real list \<Rightarrow> nat list" where
  "argsort_desc a = rev (argsort a)"

text \<open>
  \<^verbatim>\<open>sorted(xs, key=f, reverse=True)\<close>: descending by key, elements with equal keys
  in their original order.
\<close>

definition sorted_reverse :: "('a \<Rightarrow> real) \<Rightarrow> 'a list \<Rightarrow> 'a list" where
  "sorted_reverse f xs = rev (sort_key f (rev xs))"

subsection \<open>Data\<close>

text \<open>The \<^verbatim>\<open>recog_args\<close> namespace, with the options the search reads.\<close>

record recog_args =
  beam_size :: int
  penalty :: real
  ctc_weight :: real
  lm_weight :: real
  maxlenratio :: real
  minlenratio :: real

text \<open>
  Namespace objects live in a store, and a \<^verbatim>\<open>recog_args\<close> variable holds an address:
  \<^verbatim>\<open>Namespace(**vars(recog_args))\<close> allocates a new object with the same attributes.
  An address beyond the store stands for a name that is bound to no object; reading it is
  the error \<open>NameError\<close>.
\<close>

type_synonym store = "recog_args list"

definition namespace_copy :: "store \<Rightarrow> nat \<Rightarrow> nat \<times> store" where
  "namespace_copy st a = (length st, st @ [st ! a])"

definition set_minlenratio :: "store \<Rightarrow> nat \<Rightarrow> real \<Rightarrow> store" where
  "set_minlenratio st a v = st[a := (st ! a)\<lparr>minlenratio := v\<rparr>]"

text \<open>
  A hypothesis is a dictionary; a key that is absent is \<open>None\<close>. \<^verbatim>\<open>rnnlm_prev\<close> is present
  with a language model only, the two CTC keys with a CTC posterior only.
\<close>

record ('c, 's) hyp =
  score :: real
  yseq :: "nat list"
  rnnlm_prev :: "'s option"
  ctc_state_prev :: "'c option"
  ctc_score_prev :: "real option"

text \<open>An array with its shape: \<^verbatim>\<open>lpz\<close>, of shape (frames, vocabulary).\<close>

record ndarray2 =
  shape :: "nat \<times> nat"
  rows :: "real list list"

text \<open>The encoder output \<open>h\<close>: its \<^verbatim>\<open>shape[0]\<close> and its content.\<close>

record 'd encoded =
  shape0 :: nat
  payload :: 'd

text \<open>
  The language model: \<^verbatim>\<open>predict(state, token)\<close> returns the new state and the
  log-probability of every token, \<^verbatim>\<open>final(state)\<close> the score of ending.
\<close>

record 's rnnlm =
  predict :: "'s option \<Rightarrow> nat \<Rightarrow> 's \<times> (nat \<Rightarrow> real)"
  final :: "'s option \<Rightarrow> real"

text \<open>
  The attributes of \<^verbatim>\<open>self\<close> that recognition reads. \<open>decoder self h ys k\<close> is entry \<open>k\<close> of
  \<^verbatim>\<open>F.log_softmax(self.decoder(ys, yy_mask, h, xy_mask).reshape(batch, -1, self.odim)[:, -1])\<close>;
  \<open>ctc self\<close> is \<open>None\<close> when the model was built without a CTC head, and otherwise maps the
  encoder output to \<^verbatim>\<open>self.ctc.log_softmax(...).data[0]\<close>.
\<close>

record ('x, 'd) e2e =
  odim :: nat
  sos :: nat
  eos :: nat
  encoder :: "'x \<Rightarrow> 'd encoded"
  decoder :: "'d encoded \<Rightarrow> nat list \<Rightarrow> nat \<Rightarrow> real"
  ctc :: "('d encoded \<Rightarrow> ndarray2) option"

text \<open>
  Modelled from the spec: \<^verbatim>\<open>CTCPrefixScore\<close> (module \<^verbatim>\<open>espnet.nets.ctc_prefix_score\<close>) is
  not among the sources. An instance has \<^verbatim>\<open>initial_state()\<close> and, for a prefix, a list of
  candidate tokens and the previous state, returns one cumulative prefix score and one new
  state per candidate; \<open>call_ctc p ys c st\<close> is that pair for candidate \<open>c\<close>.
\<close>

record 'c ctc_prefix_score =
  initial_state :: 'c
  call_ctc :: "nat list \<Rightarrow> nat \<Rightarrow> 'c \<Rightarrow> real \<times> 'c"

text \<open>
  The two imported helpers: the constructor \<^verbatim>\<open>CTCPrefixScore(lpz, blank, eos, xp)\<close> and
  \<^verbatim>\<open>end_detect(ended_hyps, i)\<close> of \<^verbatim>\<open>espnet.nets.e2e_asr_common\<close>.
\<close>

record ('c, 's) helpers =
  CTCPrefixScore :: "ndarray2 \<Rightarrow> nat \<Rightarrow> nat \<Rightarrow> 'c ctc_prefix_score"
  end_detect :: "('c, 's) hyp list \<Rightarrow> nat \<Rightarrow> bool"

text \<open>
  Modelled from the spec: \<^verbatim>\<open>recognize_beam\<close> imports \<^verbatim>\<open>CTC_SCORING_RATIO\<close> from
  \<^verbatim>\<open>espnet.nets.pytorch_backend.rnn.decoders\<close>, which is not among the sources; the value
  is the ratio 1.5 of the specification, which is also the module constant of the same name
  in the file at hand.
\<close>

definition CTC_SCORING_RATIO :: real where
  "CTC_SCORING_RATIO = 1.5"

subsection \<open>Search parameters\<close>

definition maxlen_of :: "recog_args \<Rightarrow> nat \<Rightarrow> int" where
  "maxlen_of args L =
     (if maxlenratio args = 0 then int L
      else max 1 (py_int (maxlenratio args * real L)))"

definition minlen_of :: "recog_args \<Rightarrow> nat \<Rightarrow> int" where
  "minlen_of args L = py_int (minlenratio args * real L)"

definition ctc_beam_of :: "recog_args \<Rightarrow> ndarray2 \<Rightarrow> int" where
  "ctc_beam_of args lpz =
     (if ctc_weight args \<noteq> 1 then
        min (int (snd (shape lpz))) (py_int (real_of_int (beam_size args) * CTC_SCORING_RATIO))
      else int (snd (shape lpz)))"

text \<open>The initial hypothesis.\<close>

definition init_hyp :: "nat \<Rightarrow> 'c ctc_prefix_score option \<Rightarrow> ('c, 's) hyp" where
  "init_hyp y cps =
     \<lparr>score = 0, yseq = [y], rnnlm_prev = None,
      ctc_state_prev = map_option initial_state cps,
      ctc_score_prev = map_option (\<lambda>_. 0) cps\<rparr>"

subsection \<open>Expanding one hypothesis\<close>

definition local_att_scores :: "('x, 'd) e2e \<Rightarrow> 'd encoded \<Rightarrow> nat list \<Rightarrow> real list" where
  "local_att_scores self h ys = map (decoder self h ys) [0..<odim self]"

text \<open>
  \<^verbatim>\<open>rnnlm.predict(hyp['rnnlm_prev'], hyp['yseq'][i])\<close>: the new state and the vector of
  log-probabilities; \<open>None\<close> without a language model.
\<close>

definition lm_predict ::
  "('x, 'd) e2e \<Rightarrow> 's rnnlm option \<Rightarrow> nat \<Rightarrow> ('c, 's) hyp \<Rightarrow> py_error + ('s \<times> real list) option"
where
  "lm_predict self lm i hyp =
     (case lm of
        None \<Rightarrow> Inr None
      | Some m \<Rightarrow>
          if i < length (yseq hyp) then
            (case predict m (rnnlm_prev hyp) (yseq hyp ! i) of
               (st, f) \<Rightarrow> Inr (Some (st, map f [0..<odim self])))
          else Inl IndexError)"

definition local_scores_of :: "real \<Rightarrow> real list \<Rightarrow> real list option \<Rightarrow> real list" where
  "local_scores_of lw att lmv =
     (case lmv of None \<Rightarrow> att | Some l \<Rightarrow> map2 (\<lambda>a b. a + lw * b) att l)"

text \<open>The combined score of candidate \<open>c\<close> whose cumulative CTC score is \<open>s\<close>.\<close>

definition joint_score ::
  "real \<Rightarrow> real \<Rightarrow> real list \<Rightarrow> real list option \<Rightarrow> real \<Rightarrow> nat \<Rightarrow> real \<Rightarrow> real"
where
  "joint_score w lw att lmv prev c s =
     (case lmv of
        None \<Rightarrow> (1 - w) * att ! c + w * (s - prev)
      | Some l \<Rightarrow> (1 - w) * att ! c + w * (s - prev) + lw * l ! c)"

text \<open>
  The loop \<^verbatim>\<open>for j in range(beam)\<close> that builds the new hypotheses from
  \<^verbatim>\<open>local_best_scores\<close>, \<^verbatim>\<open>local_best_ids\<close> and, with CTC, the state and score selected by
  \<^verbatim>\<open>joint_best_ids\<close>. Reading \<^verbatim>\<open>local_best_scores[0, j]\<close> beyond the array raises.
\<close>

definition new_hyps ::
  "int \<Rightarrow> ('c, 's) hyp \<Rightarrow> real list \<Rightarrow> nat list \<Rightarrow> 's option \<Rightarrow> (real \<times> 'c) list option
     \<Rightarrow> py_error + ('c, 's) hyp list"
where
  "new_hyps beam hyp best_scores best_ids lmst sel =
     (if int (length best_scores) < beam then Inl IndexError
      else Inr (map (\<lambda>j.
             \<lparr>score = score hyp + best_scores ! j,
              yseq = yseq hyp @ [best_ids ! j],
              rnnlm_prev = lmst,
              ctc_state_prev = map_option (\<lambda>cs. snd (cs ! j)) sel,
              ctc_score_prev = map_option (\<lambda>cs. fst (cs ! j)) sel\<rparr>) [0..<nat beam]))"

text \<open>The candidates that are scored with CTC: \<^verbatim>\<open>argsort(local_scores)[0, ::-1][:ctc_beam]\<close>.\<close>

definition ctc_candidates :: "int \<Rightarrow> real list \<Rightarrow> nat list" where
  "ctc_candidates ctc_beam local_scores = py_take ctc_beam (argsort_desc local_scores)"

definition expand_hyp ::
  "('x, 'd) e2e \<Rightarrow> 'd encoded \<Rightarrow> ('c ctc_prefix_score \<times> int) option \<Rightarrow> recog_args
     \<Rightarrow> 's rnnlm option \<Rightarrow> nat \<Rightarrow> ('c, 's) hyp \<Rightarrow> py_error + ('c, 's) hyp list"
where
  "expand_hyp self h cps args lm i hyp =
     (let att = local_att_scores self h (yseq hyp) in
      case lm_predict self lm i hyp of
        Inl e \<Rightarrow> Inl e
      | Inr lmres \<Rightarrow>
          (let lmv = map_option snd lmres;
               lmst = map_option fst lmres;
               local_scores = local_scores_of (lm_weight args) att lmv
           in (case cps of
               Some (p, ctc_beam) \<Rightarrow>
                 (case (ctc_state_prev hyp, ctc_score_prev hyp) of
                    (Some cst, Some prev) \<Rightarrow>
                      let local_best_ids = ctc_candidates ctc_beam local_scores;
                          ctc_res = map (\<lambda>c. call_ctc p (yseq hyp) c cst) local_best_ids;
                          joint = map2 (\<lambda>c r. joint_score (ctc_weight args) (lm_weight args)
                                                 att lmv prev c (fst r)) local_best_ids ctc_res;
                          joint_best_ids = py_take (beam_size args) (argsort_desc joint)
                      in new_hyps (beam_size args) hyp
                           (map (\<lambda>k. joint ! k) joint_best_ids)
                           (map (\<lambda>k. local_best_ids ! k) joint_best_ids)
                           lmst
                           (Some (map (\<lambda>k. ctc_res ! k) joint_best_ids))
                  | _ \<Rightarrow> Inl KeyError)
             | None \<Rightarrow>
                 let local_best_ids = py_take (beam_size args) (argsort_desc local_scores)
                 in new_hyps (beam_size args) hyp
                      (map (\<lambda>k. local_scores ! k) local_best_ids) local_best_ids lmst None)))"

subsection \<open>One step of the search\<close>

text \<open>
  The loop over the hypotheses of the beam: the new hypotheses of each are appended to
  \<^verbatim>\<open>hyps_best_kept\<close>, which is sorted and cut to \<^verbatim>\<open>beam\<close> after each of them.
\<close>

fun prune ::
  "(('c, 's) hyp \<Rightarrow> py_error + ('c, 's) hyp list) \<Rightarrow> int \<Rightarrow> ('c, 's) hyp list
     \<Rightarrow> ('c, 's) hyp list \<Rightarrow> py_error + ('c, 's) hyp list"
where
  "prune ex beam [] hyps_best_kept = Inr hyps_best_kept"
| "prune ex beam (hyp # hyps) hyps_best_kept =
     (case ex hyp of
        Inl e \<Rightarrow> Inl e
      | Inr new \<Rightarrow>
          prune ex beam hyps (py_take beam (sorted_reverse score (hyps_best_kept @ new))))"

text \<open>
  The arguments of the two \<^verbatim>\<open>logging.debug\<close> calls that read \<^verbatim>\<open>char_list\<close>:
  \<^verbatim>\<open>hyps[0]\<close> needs a hypothesis, \<^verbatim>\<open>char_list[int(x)]\<close> a token within the list.
\<close>

definition chars_ok :: "string list \<Rightarrow> ('c, 's) hyp \<Rightarrow> bool" where
  "chars_ok cl hyp = list_all (\<lambda>x. x < length cl) (tl (yseq hyp))"

definition log_best :: "string list option \<Rightarrow> ('c, 's) hyp list \<Rightarrow> py_error option" where
  "log_best char_list hyps =
     (case char_list of
        None \<Rightarrow> None
      | Some cl \<Rightarrow>
          (case hyps of
             [] \<Rightarrow> Some IndexError
           | hyp # _ \<Rightarrow> if chars_ok cl hyp then None else Some IndexError))"

definition log_remained :: "string list option \<Rightarrow> ('c, 's) hyp list \<Rightarrow> py_error option" where
  "log_remained char_list hyps =
     (case char_list of
        None \<Rightarrow> None
      | Some cl \<Rightarrow> if list_all (chars_ok cl) hyps then None else Some IndexError)"

text \<open>\<^verbatim>\<open>for hyp in hyps: hyp['yseq'].append(self.eos)\<close>\<close>

definition add_eos :: "nat \<Rightarrow> ('c, 's) hyp list \<Rightarrow> ('c, 's) hyp list" where
  "add_eos e hyps = map (\<lambda>hyp. hyp\<lparr>yseq := yseq hyp @ [e]\<rparr>) hyps"

text \<open>The score of a hypothesis that ends at step \<open>i\<close>.\<close>

definition end_score :: "recog_args \<Rightarrow> 's rnnlm option \<Rightarrow> nat \<Rightarrow> ('c, 's) hyp \<Rightarrow> real" where
  "end_score args lm i hyp =
     (case lm of
        None \<Rightarrow> score hyp + (real i + 1) * penalty args
      | Some m \<Rightarrow> score hyp + (real i + 1) * penalty args
                   + lm_weight args * final m (rnnlm_prev hyp))"

text \<open>
  The loop that moves the ended hypotheses to \<^verbatim>\<open>ended_hyps\<close> and collects the others in
  \<^verbatim>\<open>remained_hyps\<close>. \<^verbatim>\<open>hyp['yseq'][-1]\<close> raises on an empty list.
\<close>

fun split_ended ::
  "nat \<Rightarrow> int \<Rightarrow> recog_args \<Rightarrow> 's rnnlm option \<Rightarrow> nat \<Rightarrow> ('c, 's) hyp list
     \<Rightarrow> ('c, 's) hyp list \<Rightarrow> ('c, 's) hyp list
     \<Rightarrow> py_error + (('c, 's) hyp list \<times> ('c, 's) hyp list)"
where
  "split_ended e minlen args lm i [] ended_hyps remained_hyps = Inr (ended_hyps, remained_hyps)"
| "split_ended e minlen args lm i (hyp # hyps) ended_hyps remained_hyps =
     (if yseq hyp = [] then Inl IndexError
      else if last (yseq hyp) = e then
        (if int (length (yseq hyp)) > minlen then
           split_ended e minlen args lm i hyps
             (ended_hyps @ [hyp\<lparr>score := end_score args lm i hyp\<rparr>]) remained_hyps
         else split_ended e minlen args lm i hyps ended_hyps remained_hyps)
      else split_ended e minlen args lm i hyps ended_hyps (remained_hyps @ [hyp]))"

text \<open>
  The body of \<^verbatim>\<open>for i in range(maxlen)\<close>. It returns the ended hypotheses, the next beam
  and whether the loop goes on (\<open>False\<close> for either \<^verbatim>\<open>break\<close>).
\<close>

definition step ::
  "('x, 'd) e2e \<Rightarrow> ('c, 's) helpers \<Rightarrow> 'd encoded \<Rightarrow> ('c ctc_prefix_score \<times> int) option
     \<Rightarrow> recog_args \<Rightarrow> string list option \<Rightarrow> 's rnnlm option \<Rightarrow> int \<Rightarrow> int \<Rightarrow> nat
     \<Rightarrow> ('c, 's) hyp list \<Rightarrow> ('c, 's) hyp list
     \<Rightarrow> py_error + (('c, 's) hyp list \<times> ('c, 's) hyp list \<times> bool)"
where
  "step self hlp h cps args char_list lm maxlen minlen i hyps ended_hyps =
     (case prune (expand_hyp self h cps args lm i) (beam_size args) hyps [] of
        Inl e \<Rightarrow> Inl e
      | Inr kept \<Rightarrow>
          (case log_best char_list kept of
             Some e \<Rightarrow> Inl e
           | None \<Rightarrow>
               (let hyps1 = (if int i = maxlen - 1 then add_eos (eos self) kept else kept) in
               (case split_ended (eos self) minlen args lm i hyps1 ended_hyps [] of
                 Inl e \<Rightarrow> Inl e
               | Inr (ended', remained) \<Rightarrow>
                   if end_detect hlp ended' i \<and> maxlenratio args = 0 then
                     Inr (ended', hyps1, False)
                   else if remained = [] then Inr (ended', remained, False)
                   else (case log_remained char_list remained of
                           Some e \<Rightarrow> Inl e
                         | None \<Rightarrow> Inr (ended', remained, True))))))"

text \<open>The loop itself, over the values of \<open>i\<close> that are left; it returns \<^verbatim>\<open>ended_hyps\<close>.\<close>

fun steps ::
  "(nat \<Rightarrow> ('c, 's) hyp list \<Rightarrow> ('c, 's) hyp list
      \<Rightarrow> py_error + (('c, 's) hyp list \<times> ('c, 's) hyp list \<times> bool))
     \<Rightarrow> nat list \<Rightarrow> ('c, 's) hyp list \<Rightarrow> ('c, 's) hyp list \<Rightarrow> py_error + ('c, 's) hyp list"
where
  "steps body [] hyps ended_hyps = Inr ended_hyps"
| "steps body (i # is) hyps ended_hyps =
     (case body i hyps ended_hyps of
        Inl e \<Rightarrow> Inl e
      | Inr (ended', hyps', continue) \<Rightarrow>
          if continue then steps body is hyps' ended' else Inr ended')"

subsection \<open>recognize\_beam and recognize\<close>

text \<open>
  One pass of the search for given arguments: the initialisation and the loop, up to the
  list of ended hypotheses.
\<close>

definition search ::
  "('x, 'd) e2e \<Rightarrow> ('c, 's) helpers \<Rightarrow> 'd encoded \<Rightarrow> ndarray2 option \<Rightarrow> recog_args
     \<Rightarrow> string list option \<Rightarrow> 's rnnlm option \<Rightarrow> py_error + ('c, 's) hyp list"
where
  "search self hlp h lpz args char_list lm =
     (let maxlen = maxlen_of args (shape0 h);
          minlen = minlen_of args (shape0 h);
          cps = map_option (\<lambda>z. (CTCPrefixScore hlp z 0 (eos self), ctc_beam_of args z)) lpz
      in steps (step self hlp h cps args char_list lm maxlen minlen)
           [0..<nat maxlen] [init_hyp (sos self) (map_option fst cps)] [])"

text \<open>
  \<open>recognize_beam\<close> calls itself when no hypothesis has ended. The first argument is the
  number of stack frames that are left: Python raises \<^verbatim>\<open>RecursionError\<close> when they run
  out. \<open>recog_args\<close> is an address in the store, and the store is returned.
\<close>

fun recognize_beam ::
  "nat \<Rightarrow> ('x, 'd) e2e \<Rightarrow> ('c, 's) helpers \<Rightarrow> 'd encoded \<Rightarrow> ndarray2 option \<Rightarrow> store \<Rightarrow> nat
     \<Rightarrow> string list option \<Rightarrow> 's rnnlm option \<Rightarrow> (py_error + ('c, 's) hyp list) \<times> store"
where
  "recognize_beam 0 self hlp h lpz st recog_args char_list lm = (Inl RecursionError, st)"
| "recognize_beam (Suc depth) self hlp h lpz st recog_args char_list lm =
     (if length st \<le> recog_args then (Inl NameError, st)
      else
        case search self hlp h lpz (st ! recog_args) char_list lm of
          Inl e \<Rightarrow> (Inl e, st)
        | Inr ended_hyps \<Rightarrow>
            let nbest_hyps = sorted_reverse score ended_hyps in
            if length nbest_hyps = 0 then
              (case namespace_copy st recog_args of
                 (recog_args', st') \<Rightarrow>
                   recognize_beam depth self hlp h lpz
                     (set_minlenratio st' recog_args'
                        (max 0 (minlenratio (st' ! recog_args') - 0.1)))
                     recog_args' char_list lm)
            else (Inr nbest_hyps, st))"

definition recognize ::
  "nat \<Rightarrow> ('x, 'd) e2e \<Rightarrow> ('c, 's) helpers \<Rightarrow> 'x \<Rightarrow> store \<Rightarrow> nat
     \<Rightarrow> string list option \<Rightarrow> 's rnnlm option \<Rightarrow> (py_error + ('c, 's) hyp list) \<times> store"
where
  "recognize depth self hlp x_block st recog_args char_list lm =
     (if length st \<le> recog_args then (Inl NameError, st)
      else
        let xs = encoder self x_block in
        case (if ctc_weight (st ! recog_args) > 0 then
                (case ctc self of
                   None \<Rightarrow> Inl AttributeError
                 | Some log_softmax \<Rightarrow> Inr (Some (log_softmax xs)))
              else Inr None) of
          Inl e \<Rightarrow> (Inl e, st)
        | Inr lpz \<Rightarrow>
            recognize_beam depth self hlp xs lpz st recog_args char_list
              (if lm_weight (st ! recog_args) = 0 then None else lm))"

subsection \<open>Small concrete instances\<close>

text \<open>
  A model whose decoder gives the same scores after every prefix, a CTC scorer and a
  language model with fixed scores, used to run the search on concrete inputs.
\<close>

definition toy_e2e :: "real list \<Rightarrow> nat \<Rightarrow> (unit, unit) e2e" where
  "toy_e2e att L =
     \<lparr>odim = length att, sos = length att - 1, eos = length att - 1,
      encoder = (\<lambda>_. \<lparr>shape0 = L, payload = ()\<rparr>),
      decoder = (\<lambda>h ys k. att ! k),
      ctc = Some (\<lambda>h. \<lparr>shape = (shape0 h, length att), rows = replicate (shape0 h) att\<rparr>)\<rparr>"

definition toy_ctc :: "real list \<Rightarrow> nat ctc_prefix_score" where
  "toy_ctc v = \<lparr>initial_state = 0, call_ctc = (\<lambda>ys c st. (v ! c, Suc st))\<rparr>"

definition toy_helpers :: "real list \<Rightarrow> (nat, unit) helpers" where
  "toy_helpers v = \<lparr>CTCPrefixScore = (\<lambda>z b e. toy_ctc v), end_detect = (\<lambda>ended i. False)\<rparr>"

definition toy_lm :: "real list \<Rightarrow> unit rnnlm" where
  "toy_lm v = \<lparr>predict = (\<lambda>st tok. ((), \<lambda>k. v ! k)), final = (\<lambda>st. 0)\<rparr>"

definition toy_h :: "nat \<Rightarrow> unit encoded" where
  "toy_h L = \<lparr>shape0 = L, payload = ()\<rparr>"

definition toy_lpz :: "nat \<Rightarrow> nat \<Rightarrow> ndarray2" where
  "toy_lpz L V = \<lparr>shape = (L, V), rows = replicate L (replicate V 0)\<rparr>"

definition toy_args :: "int \<Rightarrow> real \<Rightarrow> real \<Rightarrow> real \<Rightarrow> real \<Rightarrow> recog_args" where
  "toy_args b w lw maxr minr =
     \<lparr>beam_size = b, penalty = 0, ctc_weight = w, lm_weight = lw,
      maxlenratio = maxr, minlenratio = minr\<rparr>"

definition toy_hyp :: "real \<Rightarrow> nat list \<Rightarrow> (nat, unit) hyp" where
  "toy_hyp s ys =
     \<lparr>score = s, yseq = ys, rnnlm_prev = None, ctc_state_prev = None, ctc_score_prev = None\<rparr>"

section \<open>Properties\<close>

subsection \<open>Slices and sorting\<close>

lemma py_int_nonneg: "0 \<le> x \<Longrightarrow> py_int x = \<lfloor>x\<rfloor>"
  by (simp add: py_int_def)

lemma py_take_nonneg: "0 \<le> k \<Longrightarrow> py_take k xs = take (nat k) xs"
  by (simp add: py_take_def)

lemma set_py_take: "set (py_take k xs) \<subseteq> set xs"
  by (auto simp: py_take_def dest: in_set_takeD)

lemma length_py_take_le: "0 \<le> k \<Longrightarrow> int (length (py_take k xs)) \<le> k"
  by (simp add: py_take_def)

lemma distinct_py_take: "distinct xs \<Longrightarrow> distinct (py_take k xs)"
  by (simp add: py_take_def)

lemma length_argsort_desc: "length (argsort_desc a) = length a"
  by (simp add: argsort_desc_def argsort_def)

lemma set_argsort_desc: "set (argsort_desc a) = {0..<length a}"
  by (simp add: argsort_desc_def argsort_def)

lemma distinct_argsort_desc: "distinct (argsort_desc a)"
  by (simp add: argsort_desc_def argsort_def)

lemma sorted_argsort_desc: "sorted_wrt (\<lambda>i j. a ! j \<le> a ! i) (argsort_desc a)"
proof -
  have "sorted (map (\<lambda>k. a ! k) (argsort a))"
    unfolding argsort_def by (rule sorted_sort_key)
  then have "sorted_wrt (\<lambda>i j. a ! i \<le> a ! j) (argsort a)"
    by (simp add: sorted_map)
  then show ?thesis
    by (simp add: argsort_desc_def sorted_wrt_rev)
qed

lemma sorted_wrt_take_top:
  assumes "sorted_wrt R l" and "x \<in> set (take k l)" and "y \<in> set l" and "y \<notin> set (take k l)"
  shows "R x y"
proof -
  have "l = take k l @ drop k l" by simp
  with assms(1) have "sorted_wrt R (take k l @ drop k l)" by simp
  then have *: "\<forall>u\<in>set (take k l). \<forall>v\<in>set (drop k l). R u v"
    unfolding sorted_wrt_append by blast
  from assms(3,4) have "y \<in> set (drop k l)"
    by (metis Un_iff append_take_drop_id set_append)
  with * assms(2) show ?thesis by blast
qed

text \<open>The first k indices in descending order of value are a top-k selection.\<close>

lemma top_argsort_desc:
  assumes "0 \<le> k" and "c \<in> set (py_take k (argsort_desc a))"
    and "j < length a" and "j \<notin> set (py_take k (argsort_desc a))"
  shows "a ! j \<le> a ! c"
proof -
  from assms(1) have t: "py_take k (argsort_desc a) = take (nat k) (argsort_desc a)"
    by (rule py_take_nonneg)
  from assms(3) have "j \<in> set (argsort_desc a)" by (simp add: set_argsort_desc)
  with assms(2,4) show ?thesis
    unfolding t
    using sorted_wrt_take_top [where R = "\<lambda>i j. a ! j \<le> a ! i", OF sorted_argsort_desc]
    by blast
qed

lemma length_top_argsort_desc:
  "0 \<le> k \<Longrightarrow> length (py_take k (argsort_desc a)) = min (nat k) (length a)"
  by (simp add: py_take_nonneg length_argsort_desc min.commute)

lemma sorted_sorted_reverse: "sorted_wrt (\<lambda>x y. f y \<le> f x) (sorted_reverse f xs)"
proof -
  have "sorted (map f (sort_key f (rev xs)))" by (rule sorted_sort_key)
  then have "sorted_wrt (\<lambda>x y. f x \<le> f y) (sort_key f (rev xs))" by (simp add: sorted_map)
  then show ?thesis by (simp add: sorted_reverse_def sorted_wrt_rev)
qed

lemma set_sorted_reverse: "set (sorted_reverse f xs) = set xs"
  by (simp add: sorted_reverse_def)

lemma length_sorted_reverse: "length (sorted_reverse f xs) = length xs"
  by (simp add: sorted_reverse_def)

subsection \<open>Length limits\<close>

text \<open>
  Claim C6. For a maximum length ratio that is not negative and a minimum length ratio in
  [0, 1), \<^verbatim>\<open>maxlen\<close> is \<open>max 1 \<lfloor>maxlenratio * L\<rfloor>\<close> when the ratio is positive and the encoder output
  length \<open>L\<close> itself when it is 0, and \<^verbatim>\<open>minlen\<close> is \<open>\<lfloor>minlenratio * L\<rfloor>\<close>.
\<close>

theorem maxlen_minlen:
  assumes "0 \<le> maxlenratio args" and "0 \<le> minlenratio args" and "minlenratio args < 1"
  shows "maxlen_of args L =
           (if 0 < maxlenratio args then max 1 \<lfloor>maxlenratio args * real L\<rfloor> else int L)
         \<and> minlen_of args L = \<lfloor>minlenratio args * real L\<rfloor>"
proof -
  have "0 \<le> maxlenratio args * real L" using assms(1) by simp
  moreover have "0 \<le> minlenratio args * real L" using assms(2) by simp
  ultimately show ?thesis
    using assms(1) by (auto simp: maxlen_of_def minlen_of_def py_int_nonneg)
qed

text \<open>An instance: ratios 0.7 and 0.5 on 10 frames.\<close>

theorem maxlen_minlen_witness:
  "(0::real) \<le> 0.7 \<and> (0::real) \<le> 0.5 \<and> (0.5::real) < 1
   \<and> maxlen_of \<lparr>beam_size = 2, penalty = 0, ctc_weight = 0.3, lm_weight = 0,
                  maxlenratio = 0.7, minlenratio = 0.5\<rparr> 10 = 7
   \<and> minlen_of \<lparr>beam_size = 2, penalty = 0, ctc_weight = 0.3, lm_weight = 0,
                  maxlenratio = 0.7, minlenratio = 0.5\<rparr> 10 = 5"
  using maxlen_minlen [of "\<lparr>beam_size = 2, penalty = 0, ctc_weight = 0.3, lm_weight = 0,
                  maxlenratio = 0.7, minlenratio = 0.5\<rparr>" 10]
  by simp

subsection \<open>Pruning with a CTC posterior\<close>

lemma length_lm_vector:
  "lm_predict self lm i hyp = Inr (Some r) \<Longrightarrow> length (snd r) = odim self"
  by (auto simp: lm_predict_def split: option.splits if_splits prod.splits)

lemma lm_predict_None: "lm_predict self None i hyp = Inr None"
  by (simp add: lm_predict_def)

lemma lm_predict_no_lm: "lm_predict self lm i hyp = Inr None \<Longrightarrow> lm = None"
  by (auto simp: lm_predict_def split: option.splits if_splits prod.splits)

lemma length_local_scores:
  assumes "lm_predict self lm i hyp = Inr lmres"
  shows "length (local_scores_of lw (local_att_scores self h ys) (map_option snd lmres))
           = odim self"
proof (cases lmres)
  case None
  then show ?thesis by (simp add: local_scores_of_def local_att_scores_def)
next
  case (Some r)
  with assms have "length (snd r) = odim self" by (simp add: length_lm_vector)
  with Some show ?thesis by (simp add: local_scores_of_def local_att_scores_def)
qed

lemma ctc_beam_of_nonneg:
  assumes "0 \<le> beam_size args"
  shows "ctc_beam_of args lpz =
           (if ctc_weight args = 1 then int (snd (shape lpz))
            else min (int (snd (shape lpz))) \<lfloor>real_of_int (beam_size args) * 1.5\<rfloor>)"
    and "0 \<le> ctc_beam_of args lpz"
proof -
  from assms have "0 \<le> real_of_int (beam_size args) * 1.5" by simp
  then have *: "py_int (real_of_int (beam_size args) * CTC_SCORING_RATIO)
                 = \<lfloor>real_of_int (beam_size args) * 1.5\<rfloor>"
    by (simp add: py_int_nonneg CTC_SCORING_RATIO_def)
  show "ctc_beam_of args lpz =
           (if ctc_weight args = 1 then int (snd (shape lpz))
            else min (int (snd (shape lpz))) \<lfloor>real_of_int (beam_size args) * 1.5\<rfloor>)"
    by (simp add: ctc_beam_of_def *)
  from assms have "0 \<le> \<lfloor>real_of_int (beam_size args) * 1.5\<rfloor>" by simp
  then show "0 \<le> ctc_beam_of args lpz"
    by (simp add: ctc_beam_of_def *)
qed

lemma length_ctc_candidates:
  "0 \<le> k \<Longrightarrow> length (ctc_candidates k ls) = min (nat k) (length ls)"
  by (simp add: ctc_candidates_def length_top_argsort_desc)

lemma distinct_ctc_candidates: "distinct (ctc_candidates k ls)"
  by (simp add: ctc_candidates_def distinct_py_take distinct_argsort_desc)

lemma set_ctc_candidates: "set (ctc_candidates k ls) \<subseteq> {0..<length ls}"
  using set_py_take [of k "argsort_desc ls"] by (simp add: ctc_candidates_def set_argsort_desc)

lemma top_ctc_candidates:
  "0 \<le> k \<Longrightarrow> c \<in> set (ctc_candidates k ls) \<Longrightarrow> j < length ls
     \<Longrightarrow> j \<notin> set (ctc_candidates k ls) \<Longrightarrow> ls ! j \<le> ls ! c"
  unfolding ctc_candidates_def by (rule top_argsort_desc)

lemma map_nth_upt: "n = length xs \<Longrightarrow> map (\<lambda>j. g (xs ! j)) [0..<n] = map g xs"
  by (rule nth_equalityI) simp_all

text \<open>The hypotheses built by the loop over \<open>j\<close>, when no read is out of range.\<close>

lemma new_hyps_Inr:
  assumes "new_hyps beam hyp (map sc ks) (map tok ks) lmst (Some (map cr ks)) = Inr new"
    and "length ks \<le> nat beam"
  shows "length ks = nat beam"
    and "new = map (\<lambda>k. \<lparr>score = score hyp + sc k, yseq = yseq hyp @ [tok k],
                          rnnlm_prev = lmst, ctc_state_prev = Some (snd (cr k)),
                          ctc_score_prev = Some (fst (cr k))\<rparr>) ks"
proof -
  let ?H = "\<lambda>k. \<lparr>score = score hyp + sc k, yseq = yseq hyp @ [tok k],
                  rnnlm_prev = lmst, ctc_state_prev = Some (snd (cr k)),
                  ctc_score_prev = Some (fst (cr k))\<rparr>"
  let ?G = "\<lambda>j. \<lparr>score = score hyp + map sc ks ! j,
                  yseq = yseq hyp @ [map tok ks ! j], rnnlm_prev = lmst,
                  ctc_state_prev = map_option (\<lambda>cs. snd (cs ! j)) (Some (map cr ks)),
                  ctc_score_prev = map_option (\<lambda>cs. fst (cs ! j)) (Some (map cr ks))\<rparr>"
  have ge: "\<not> int (length ks) < beam"
  proof
    assume "int (length ks) < beam"
    then have "new_hyps beam hyp (map sc ks) (map tok ks) lmst (Some (map cr ks))
                 = Inl IndexError"
      unfolding new_hyps_def by simp
    with assms(1) show False by simp
  qed
  with assms(2) show len: "length ks = nat beam" by linarith
  from ge have "new_hyps beam hyp (map sc ks) (map tok ks) lmst (Some (map cr ks))
                  = Inr (map ?G [0..<nat beam])"
    unfolding new_hyps_def by simp
  with assms(1) have "new = map ?G [0..<nat beam]" by simp
  also have "\<dots> = map ?G [0..<length ks]" by (simp only: len)
  also have "\<dots> = map (\<lambda>j. ?H (ks ! j)) [0..<length ks]"
    by (rule map_cong) simp_all
  also have "\<dots> = map ?H ks"
    by (rule map_nth_upt) simp
  finally show "new = map ?H ks" .
qed

lemma map2_joint_score:
  "map2 (\<lambda>c r. joint_score w lw att lmv prev c (fst r)) cs (map f cs)
     = map (\<lambda>c. joint_score w lw att lmv prev c (fst (f c))) cs"
  by (induction cs) simp_all

text \<open>The expansion with a CTC posterior, with the local definitions unfolded.\<close>

lemma expand_hyp_ctc:
  assumes "lm_predict self lm i hyp = Inr lmres"
    and "ctc_state_prev hyp = Some cst" and "ctc_score_prev hyp = Some prev"
  shows "expand_hyp self h (Some (p, ctc_beam)) args lm i hyp =
     (let att = local_att_scores self h (yseq hyp);
          lmv = map_option snd lmres;
          cands = ctc_candidates ctc_beam (local_scores_of (lm_weight args) att lmv);
          joint = map (\<lambda>c. joint_score (ctc_weight args) (lm_weight args) att lmv prev c
                               (fst (call_ctc p (yseq hyp) c cst))) cands;
          jb = py_take (beam_size args) (argsort_desc joint)
      in new_hyps (beam_size args) hyp (map (\<lambda>k. joint ! k) jb) (map (\<lambda>k. cands ! k) jb)
           (map_option fst lmres)
           (Some (map (\<lambda>k. map (\<lambda>c. call_ctc p (yseq hyp) c cst) cands ! k) jb)))"
  using assms by (simp add: expand_hyp_def Let_def map2_joint_score)

lemma expand_hyp_ctc_kept:
  fixes p :: "'c ctc_prefix_score"
  assumes lmp: "lm_predict self lm i hyp = Inr lmres"
    and cst: "ctc_state_prev hyp = Some cst" and prev: "ctc_score_prev hyp = Some prev"
    and beam: "0 \<le> beam_size args"
    and ex: "expand_hyp self h (Some (p, ctc_beam)) args lm i hyp = Inr new"
  defines "cands \<equiv> ctc_candidates ctc_beam
             (local_scores_of (lm_weight args) (local_att_scores self h (yseq hyp))
                (map_option snd lmres))"
    and "J \<equiv> \<lambda>c. joint_score (ctc_weight args) (lm_weight args)
                  (local_att_scores self h (yseq hyp)) (map_option snd lmres) prev c
                  (fst (call_ctc p (yseq hyp) c cst))"
  shows "\<exists>cs. distinct cs \<and> set cs \<subseteq> set cands \<and> length cs = nat (beam_size args)
           \<and> new = map (\<lambda>c. \<lparr>score = score hyp + J c, yseq = yseq hyp @ [c],
                               rnnlm_prev = map_option fst lmres,
                               ctc_state_prev = Some (snd (call_ctc p (yseq hyp) c cst)),
                               ctc_score_prev = Some (fst (call_ctc p (yseq hyp) c cst))\<rparr>) cs
           \<and> (\<forall>c\<in>set cs. \<forall>c'\<in>set cands. c' \<notin> set cs \<longrightarrow> J c' \<le> J c)"
proof -
  let ?joint = "map J cands"
  let ?jb = "py_take (beam_size args) (argsort_desc ?joint)"
  let ?cr = "\<lambda>c. call_ctc p (yseq hyp) c cst"
  let ?mk = "\<lambda>c. \<lparr>score = score hyp + J c, yseq = yseq hyp @ [c],
                   rnnlm_prev = map_option fst lmres,
                   ctc_state_prev = Some (snd (?cr c)),
                   ctc_score_prev = Some (fst (?cr c))\<rparr>"
  let ?cs = "map (\<lambda>k. cands ! k) ?jb"
  have jb_lt: "k < length cands" if "k \<in> set ?jb" for k
    using that set_py_take [of "beam_size args" "argsort_desc ?joint"]
    by (auto simp: set_argsort_desc)
  have jb_dist: "distinct ?jb"
    by (simp add: distinct_py_take distinct_argsort_desc)
  from beam have "int (length ?jb) \<le> beam_size args" by (rule length_py_take_le)
  then have jb_len: "length ?jb \<le> nat (beam_size args)" by linarith
  from ex have nh: "new_hyps (beam_size args) hyp (map (\<lambda>k. ?joint ! k) ?jb)
                 (map (\<lambda>k. cands ! k) ?jb) (map_option fst lmres)
                 (Some (map (\<lambda>k. map ?cr cands ! k) ?jb)) = Inr new"
    unfolding expand_hyp_ctc [OF lmp cst prev] Let_def cands_def J_def .
  from new_hyps_Inr [OF nh jb_len]
  have len: "length ?jb = nat (beam_size args)"
    and new: "new = map (\<lambda>k. \<lparr>score = score hyp + ?joint ! k, yseq = yseq hyp @ [cands ! k],
                           rnnlm_prev = map_option fst lmres,
                           ctc_state_prev = Some (snd (map ?cr cands ! k)),
                           ctc_score_prev = Some (fst (map ?cr cands ! k))\<rparr>) ?jb"
    by simp_all
  have "new = map (\<lambda>k. ?mk (cands ! k)) ?jb"
    unfolding new by (rule map_cong) (simp_all add: jb_lt)
  then have new': "new = map ?mk ?cs" by (simp add: comp_def)
  have "inj_on (\<lambda>k. cands ! k) (set ?jb)"
    by (rule inj_on_nth) (simp_all add: cands_def distinct_ctc_candidates jb_lt [unfolded cands_def])
  with jb_dist have d: "distinct ?cs" by (simp add: distinct_map)
  have sub: "set ?cs \<subseteq> set cands" using jb_lt by auto
  have top: "J c' \<le> J c" if c: "c \<in> set ?cs" and c': "c' \<in> set cands" "c' \<notin> set ?cs" for c c'
  proof -
    from c obtain k where k: "k \<in> set ?jb" "c = cands ! k" by auto
    from c'(1) obtain k' where k': "k' < length cands" "c' = cands ! k'"
      by (auto simp: in_set_conv_nth)
    from c'(2) k' have "k' \<notin> set ?jb" by auto
    with top_argsort_desc [OF beam k(1), of k'] k'(1)
    have "?joint ! k' \<le> ?joint ! k" by simp
    with k k' jb_lt [OF k(1)] show ?thesis by simp
  qed
  from d sub len new' top show ?thesis
    by (intro exI [of _ ?cs]) (simp only: length_map, blast)
qed

lemma expand_hyp_ctc_succeeds:
  assumes lmp: "lm_predict self lm i hyp = Inr lmres"
    and cst: "ctc_state_prev hyp = Some cst" and prev: "ctc_score_prev hyp = Some prev"
    and beam: "0 \<le> beam_size args"
    and enough: "beam_size args \<le> int (length (ctc_candidates ctc_beam
             (local_scores_of (lm_weight args) (local_att_scores self h (yseq hyp))
                (map_option snd lmres))))"
  shows "\<exists>new. expand_hyp self h (Some (p, ctc_beam)) args lm i hyp = Inr new"
proof -
  from beam enough show ?thesis
    unfolding expand_hyp_ctc [OF lmp cst prev] Let_def new_hyps_def
    by (simp add: py_take_nonneg length_argsort_desc)
qed

lemma expand_hyp_ctc_local:
  assumes "\<forall>c\<in>set (ctc_candidates ctc_beam
             (local_scores_of (lm_weight args) (local_att_scores self h (yseq hyp))
                (map_option snd lmres))). call_ctc p' (yseq hyp) c cst = call_ctc p (yseq hyp) c cst"
    and lmp: "lm_predict self lm i hyp = Inr lmres"
    and cst: "ctc_state_prev hyp = Some cst" and prev: "ctc_score_prev hyp = Some prev"
  shows "expand_hyp self h (Some (p', ctc_beam)) args lm i hyp
           = expand_hyp self h (Some (p, ctc_beam)) args lm i hyp"
proof -
  let ?cands = "ctc_candidates ctc_beam
             (local_scores_of (lm_weight args) (local_att_scores self h (yseq hyp))
                (map_option snd lmres))"
  from assms(1) have 1: "map (\<lambda>c. call_ctc p' (yseq hyp) c cst) ?cands
                     = map (\<lambda>c. call_ctc p (yseq hyp) c cst) ?cands"
    by (intro map_cong) simp_all
  from assms(1) have 2: "map (\<lambda>c. joint_score (ctc_weight args) (lm_weight args)
             (local_att_scores self h (yseq hyp)) (map_option snd lmres) prev c
             (fst (call_ctc p' (yseq hyp) c cst))) ?cands
        = map (\<lambda>c. joint_score (ctc_weight args) (lm_weight args)
             (local_att_scores self h (yseq hyp)) (map_option snd lmres) prev c
             (fst (call_ctc p (yseq hyp) c cst))) ?cands"
    by (intro map_cong) simp_all
  show ?thesis
    unfolding expand_hyp_ctc [OF lmp cst prev] Let_def 1 2 ..
qed

lemma local_scores_no_lm: "local_scores_of lw att None = att"
  by (simp add: local_scores_of_def)

lemma local_scores_lm_nth:
  "k < length att \<Longrightarrow> k < length l
     \<Longrightarrow> local_scores_of lw att (Some l) ! k = att ! k + lw * l ! k"
  by (simp add: local_scores_of_def)

lemma length_local_att_scores: "length (local_att_scores self h ys) = odim self"
  by (simp add: local_att_scores_def)

lemma ctc_candidates_size:
  assumes beam: "0 \<le> beam_size args" and vocab: "snd (shape lpz) = length ls"
  shows "int (length (ctc_candidates (ctc_beam_of args lpz) ls)) =
           (if ctc_weight args = 1 then int (length ls)
            else min (int (length ls)) \<lfloor>real_of_int (beam_size args) * 1.5\<rfloor>)"
proof -
  from beam have f: "0 \<le> \<lfloor>real_of_int (beam_size args) * 1.5\<rfloor>" by simp
  have "length (ctc_candidates (ctc_beam_of args lpz) ls)
          = min (nat (ctc_beam_of args lpz)) (length ls)"
    using ctc_beam_of_nonneg(2) [OF beam] by (rule length_ctc_candidates)
  then show ?thesis
    using f by (simp add: ctc_beam_of_nonneg(1) [OF beam] vocab)
qed

text \<open>
  Claim C1, as the code has it. With a CTC posterior whose vocabulary is that of the decoder,
  for every hypothesis at every step: the candidates scored with CTC are distinct tokens,
  as many as the vocabulary when \<^verbatim>\<open>ctc_weight\<close> is 1 and \<open>min vocabulary \<lfloor>beam_size * 1.5\<rfloor>\<close>
  otherwise; without a language model no token outside has a higher attention score (how
  the candidates are ranked with a language model is not part of the statement).
  The expansion reads the CTC scorer at the candidates only.
  The combined score of a candidate is
  \<open>(1 - ctc_weight) * attention + ctc_weight * (ctc_score - ctc_score_prev)\<close>, plus
  \<^verbatim>\<open>lm_weight\<close> times the language model score with a language model. With at least
  \<^verbatim>\<open>beam_size\<close> candidates the expansion returns, and what it returns are the
  \<^verbatim>\<open>beam_size\<close> candidates of highest combined score, each appended to the prefix.
\<close>

theorem ctc_pruning:
  fixes p :: "'c ctc_prefix_score" and h :: "'d encoded"
  assumes beam: "0 \<le> beam_size args"
    and vocab: "snd (shape lpz) = odim self"
    and lmp: "lm_predict self lm i hyp = Inr lmres"
    and cst: "ctc_state_prev hyp = Some cst" and prev: "ctc_score_prev hyp = Some prev"
  defines "att \<equiv> local_att_scores self h (yseq hyp)"
  defines "ls \<equiv> local_scores_of (lm_weight args) att (map_option snd lmres)"
  defines "cands \<equiv> ctc_candidates (ctc_beam_of args lpz) ls"
  defines "J \<equiv> \<lambda>c. joint_score (ctc_weight args) (lm_weight args) att
                   (map_option snd lmres) prev c (fst (call_ctc p (yseq hyp) c cst))"
  shows "int (length cands) =
           (if ctc_weight args = 1 then int (odim self)
            else min (int (odim self)) \<lfloor>real_of_int (beam_size args) * 1.5\<rfloor>)
       \<and> distinct cands \<and> set cands \<subseteq> {0..<odim self}
       \<and> (lm = None \<longrightarrow>
             (\<forall>c\<in>set cands. \<forall>k<odim self. k \<notin> set cands \<longrightarrow> att ! k \<le> att ! c))
       \<and> (\<forall>c. J c = (1 - ctc_weight args) * att ! c
                      + ctc_weight args * (fst (call_ctc p (yseq hyp) c cst) - prev)
                      + (case lmres of None \<Rightarrow> 0 | Some r \<Rightarrow> lm_weight args * snd r ! c))
       \<and> (\<forall>p'. (\<forall>c\<in>set cands. call_ctc p' (yseq hyp) c cst = call_ctc p (yseq hyp) c cst)
             \<longrightarrow> expand_hyp self h (Some (p', ctc_beam_of args lpz)) args lm i hyp
                   = expand_hyp self h (Some (p, ctc_beam_of args lpz)) args lm i hyp)
       \<and> (beam_size args \<le> int (length cands)
             \<longrightarrow> (\<exists>new. expand_hyp self h (Some (p, ctc_beam_of args lpz)) args lm i hyp
                          = Inr new))
       \<and> (\<forall>new. expand_hyp self h (Some (p, ctc_beam_of args lpz)) args lm i hyp = Inr new
             \<longrightarrow> (\<exists>cs. distinct cs \<and> set cs \<subseteq> set cands \<and> length cs = nat (beam_size args)
                   \<and> new = map (\<lambda>c. \<lparr>score = score hyp + J c, yseq = yseq hyp @ [c],
                                rnnlm_prev = map_option fst lmres,
                                ctc_state_prev = Some (snd (call_ctc p (yseq hyp) c cst)),
                                ctc_score_prev = Some (fst (call_ctc p (yseq hyp) c cst))\<rparr>) cs
                   \<and> (\<forall>c\<in>set cs. \<forall>c'\<in>set cands. c' \<notin> set cs \<longrightarrow> J c' \<le> J c)))"
proof -
  have len: "length ls = odim self"
    unfolding ls_def att_def using lmp by (rule length_local_scores)
  have size: "int (length cands) =
           (if ctc_weight args = 1 then int (odim self)
            else min (int (odim self)) \<lfloor>real_of_int (beam_size args) * 1.5\<rfloor>)"
    unfolding cands_def using ctc_candidates_size [OF beam, of lpz ls] vocab len by simp
  have dist: "distinct cands"
    unfolding cands_def by (rule distinct_ctc_candidates)
  have sub: "set cands \<subseteq> {0..<odim self}"
    unfolding cands_def using set_ctc_candidates [of "ctc_beam_of args lpz" ls] len by simp
  have top: "\<forall>c\<in>set cands. \<forall>k<odim self. k \<notin> set cands \<longrightarrow> ls ! k \<le> ls ! c"
    unfolding cands_def
    using top_ctc_candidates [OF ctc_beam_of_nonneg(2) [OF beam], of _ lpz ls] len by auto
  have nolm: "lm = None \<longrightarrow>
             (\<forall>c\<in>set cands. \<forall>k<odim self. k \<notin> set cands \<longrightarrow> att ! k \<le> att ! c)"
  proof
    assume "lm = None"
    with lmp have "lmres = None" by (simp add: lm_predict_None)
    then have "ls = att" by (simp add: ls_def local_scores_no_lm)
    with top show "\<forall>c\<in>set cands. \<forall>k<odim self. k \<notin> set cands \<longrightarrow> att ! k \<le> att ! c"
      by simp
  qed
  have formula: "\<forall>c. J c = (1 - ctc_weight args) * att ! c
                      + ctc_weight args * (fst (call_ctc p (yseq hyp) c cst) - prev)
                      + (case lmres of None \<Rightarrow> 0 | Some r \<Rightarrow> lm_weight args * snd r ! c)"
    by (cases lmres) (simp_all add: J_def joint_score_def)
  have locality: "\<forall>p'. (\<forall>c\<in>set cands. call_ctc p' (yseq hyp) c cst = call_ctc p (yseq hyp) c cst)
             \<longrightarrow> expand_hyp self h (Some (p', ctc_beam_of args lpz)) args lm i hyp
                   = expand_hyp self h (Some (p, ctc_beam_of args lpz)) args lm i hyp"
    unfolding cands_def ls_def att_def
    using expand_hyp_ctc_local [OF _ lmp cst prev] by blast
  have succeeds: "beam_size args \<le> int (length cands)
             \<longrightarrow> (\<exists>new. expand_hyp self h (Some (p, ctc_beam_of args lpz)) args lm i hyp
                          = Inr new)"
    unfolding cands_def ls_def att_def
    using expand_hyp_ctc_succeeds [OF lmp cst prev beam] by blast
  have kept: "\<forall>new. expand_hyp self h (Some (p, ctc_beam_of args lpz)) args lm i hyp = Inr new
             \<longrightarrow> (\<exists>cs. distinct cs \<and> set cs \<subseteq> set cands \<and> length cs = nat (beam_size args)
                   \<and> new = map (\<lambda>c. \<lparr>score = score hyp + J c, yseq = yseq hyp @ [c],
                                rnnlm_prev = map_option fst lmres,
                                ctc_state_prev = Some (snd (call_ctc p (yseq hyp) c cst)),
                                ctc_score_prev = Some (fst (call_ctc p (yseq hyp) c cst))\<rparr>) cs
                   \<and> (\<forall>c\<in>set cs. \<forall>c'\<in>set cands. c' \<notin> set cs \<longrightarrow> J c' \<le> J c))"
    unfolding cands_def ls_def att_def J_def
    using expand_hyp_ctc_kept [OF lmp cst prev beam] by blast
  from size dist sub nolm formula locality succeeds kept show ?thesis
    by (intro conjI)
qed

text \<open>An instance: a beam of 2, 4 tokens, \<^verbatim>\<open>ctc_weight = 0.5\<close>, no language model.\<close>

theorem ctc_pruning_witness:
  "0 \<le> beam_size (toy_args 2 0.5 0 0 0)
   \<and> snd (shape (toy_lpz 2 4)) = odim (toy_e2e [-4, -1, -2, -3] 2)
   \<and> lm_predict (toy_e2e [-4, -1, -2, -3] 2) (None :: unit rnnlm option) 0
        (init_hyp 3 (Some (toy_ctc [-5, -5, -5, -1]))) = Inr None
   \<and> ctc_state_prev (init_hyp 3 (Some (toy_ctc [-5, -5, -5, -1])) :: (nat, unit) hyp) = Some 0
   \<and> ctc_score_prev (init_hyp 3 (Some (toy_ctc [-5, -5, -5, -1])) :: (nat, unit) hyp) = Some 0
   \<and> length (ctc_candidates (ctc_beam_of (toy_args 2 0.5 0 0 0) (toy_lpz 2 4))
        (local_scores_of 0 (local_att_scores (toy_e2e [-4, -1, -2, -3] 2) (toy_h 2) [3]) None)) = 3
   \<and> expand_hyp (toy_e2e [-4, -1, -2, -3] 2) (toy_h 2)
        (Some (toy_ctc [-5, -5, -5, -1], ctc_beam_of (toy_args 2 0.5 0 0 0) (toy_lpz 2 4)))
        (toy_args 2 0.5 0 0 0) (None :: unit rnnlm option) 0
        (init_hyp 3 (Some (toy_ctc [-5, -5, -5, -1])))
      = Inr [\<lparr>score = -2, yseq = [3, 3], rnnlm_prev = None,
               ctc_state_prev = Some 1, ctc_score_prev = Some (-1)\<rparr>,
             \<lparr>score = -3, yseq = [3, 1], rnnlm_prev = None,
               ctc_state_prev = Some 1, ctc_score_prev = Some (-5)\<rparr>]"
proof -
  let ?A = "toy_args 2 0.5 0 0 0" and ?M = "toy_e2e [-4, -1, -2, -3] 2"
  let ?H = "init_hyp 3 (Some (toy_ctc [-5, -5, -5, -1])) :: (nat, unit) hyp"
  have h1: "0 \<le> beam_size ?A" by code_simp
  have h2: "snd (shape (toy_lpz 2 4)) = odim ?M" by code_simp
  have h3: "lm_predict ?M (None :: unit rnnlm option) 0 ?H = Inr None" by code_simp
  have h4: "ctc_state_prev ?H = Some 0" by code_simp
  have h5: "ctc_score_prev ?H = Some 0" by code_simp
  have y: "yseq ?H = [3]" by code_simp
  have w: "lm_weight ?A = 0" by code_simp
  have r: "(if ctc_weight ?A = 1 then int (odim ?M)
            else min (int (odim ?M)) \<lfloor>real_of_int (beam_size ?A) * 1.5\<rfloor>) = 3"
    by code_simp
  note T = ctc_pruning [OF h1 h2 h3 h4 h5, of "toy_h 2" "toy_ctc [-5, -5, -5, -1]"]
  from T [THEN conjunct1]
  have size: "length (ctc_candidates (ctc_beam_of ?A (toy_lpz 2 4))
          (local_scores_of 0 (local_att_scores ?M (toy_h 2) [3]) None)) = 3"
    unfolding r y w by simp
  have run: "expand_hyp ?M (toy_h 2)
        (Some (toy_ctc [-5, -5, -5, -1], ctc_beam_of ?A (toy_lpz 2 4))) ?A
        (None :: unit rnnlm option) 0 ?H
      = Inr [\<lparr>score = -2, yseq = [3, 3], rnnlm_prev = None,
               ctc_state_prev = Some 1, ctc_score_prev = Some (-1)\<rparr>,
             \<lparr>score = -3, yseq = [3, 1], rnnlm_prev = None,
               ctc_state_prev = Some 1, ctc_score_prev = Some (-5)\<rparr>]"
    by code_simp
  from h1 h2 h3 h4 h5 size run show ?thesis by (intro conjI)
qed

text \<open>
  The candidate set is not always of size \<open>min vocabulary \<lfloor>beam_size * 1.5\<rfloor>\<close>: with
  \<^verbatim>\<open>ctc_weight = 1\<close>, a beam of 1 and 4 tokens, all 4 tokens are scored with CTC, and the
  token that is kept is third in attention score.
\<close>

theorem ctc_candidate_set_counterexample:
  "int (length (ctc_candidates (ctc_beam_of (toy_args 1 1 0 0 0) (toy_lpz 2 4))
      (local_scores_of 0 (local_att_scores (toy_e2e [-4, -1, -2, -3] 2) (toy_h 2) [3]) None)))
     \<noteq> min (int (odim (toy_e2e [-4, -1, -2, -3] 2)))
            \<lfloor>real_of_int (beam_size (toy_args 1 1 0 0 0)) * 1.5\<rfloor>
   \<and> expand_hyp (toy_e2e [-4, -1, -2, -3] 2) (toy_h 2)
        (Some (toy_ctc [-5, -5, -5, -1], ctc_beam_of (toy_args 1 1 0 0 0) (toy_lpz 2 4)))
        (toy_args 1 1 0 0 0) (None :: unit rnnlm option) 0
        (init_hyp 3 (Some (toy_ctc [-5, -5, -5, -1])))
      = Inr [\<lparr>score = -1, yseq = [3, 3], rnnlm_prev = None,
               ctc_state_prev = Some 1, ctc_score_prev = Some (-1)\<rparr>]"
  by code_simp

subsection \<open>The step: pruning, forced end, completion\<close>

lemma prune_length:
  "0 \<le> beam \<Longrightarrow> int (length kept) \<le> beam \<Longrightarrow> prune ex beam hyps kept = Inr r
     \<Longrightarrow> int (length r) \<le> beam"
proof (induction hyps arbitrary: kept)
  case Nil
  then show ?case by simp
next
  case (Cons hyp hyps)
  from Cons.prems(3) obtain new where new: "ex hyp = Inr new"
    and rest: "prune ex beam hyps (py_take beam (sorted_reverse score (kept @ new))) = Inr r"
    by (auto split: sum.splits)
  from Cons.prems(1)
  have L: "int (length (py_take beam (sorted_reverse score (kept @ new)))) \<le> beam"
    by (rule length_py_take_le)
  from Cons.prems(1) L rest show ?case by (rule Cons.IH)
qed

lemma new_hyps_nonempty:
  "new_hyps beam hyp scs ids lmst sel = Inr new \<Longrightarrow> \<forall>n\<in>set new. yseq n \<noteq> []"
  by (auto simp: new_hyps_def split: if_splits)

lemma expand_hyp_nonempty:
  assumes "expand_hyp self h cps args lm i hyp = Inr new"
  shows "\<forall>n\<in>set new. yseq n \<noteq> []"
proof -
  from assms obtain scs ids lmst sel
    where "new_hyps (beam_size args) hyp scs ids lmst sel = Inr new"
    unfolding expand_hyp_def Let_def
    by (auto split: sum.splits option.splits prod.splits)
  then show ?thesis by (rule new_hyps_nonempty)
qed

lemma prune_nonempty:
  assumes "\<And>hyp new. ex hyp = Inr new \<Longrightarrow> \<forall>n\<in>set new. yseq n \<noteq> []"
  shows "\<forall>n\<in>set kept. yseq n \<noteq> [] \<Longrightarrow> prune ex beam hyps kept = Inr r
     \<Longrightarrow> \<forall>n\<in>set r. yseq n \<noteq> []"
proof (induction hyps arbitrary: kept)
  case Nil
  then show ?case by simp
next
  case (Cons hyp hyps)
  from Cons.prems(2) obtain new where new: "ex hyp = Inr new"
    and rest: "prune ex beam hyps (py_take beam (sorted_reverse score (kept @ new))) = Inr r"
    by (auto split: sum.splits)
  from new have "\<forall>n\<in>set new. yseq n \<noteq> []" by (rule assms)
  with Cons.prems(1)
  have "\<forall>n\<in>set (py_take beam (sorted_reverse score (kept @ new))). yseq n \<noteq> []"
    using set_py_take [of beam "sorted_reverse score (kept @ new)"]
    by (auto simp: set_sorted_reverse)
  from this rest show ?case by (rule Cons.IH)
qed

lemma pruned_nonempty:
  assumes "prune (expand_hyp self h cps args lm i) beam hyps [] = Inr kept"
  shows "\<forall>n\<in>set kept. yseq n \<noteq> []"
  using _ _ assms
proof (rule prune_nonempty)
  show "\<forall>n\<in>set []. yseq n \<noteq> []" by simp
qed (rule expand_hyp_nonempty)

lemma end_score_eq:
  "end_score args lm i hyp =
     score hyp + (real i + 1) * penalty args
       + (case lm of None \<Rightarrow> 0 | Some m \<Rightarrow> lm_weight args * final m (rnnlm_prev hyp))"
  by (simp add: end_score_def split: option.splits)

lemma split_ended_eq:
  "\<forall>hyp\<in>set hyps. yseq hyp \<noteq> [] \<Longrightarrow>
   split_ended e minlen args lm i hyps ended remained =
     Inr (ended @ map (\<lambda>hyp. hyp\<lparr>score := end_score args lm i hyp\<rparr>)
                     (filter (\<lambda>hyp. last (yseq hyp) = e \<and> minlen < int (length (yseq hyp))) hyps),
          remained @ filter (\<lambda>hyp. last (yseq hyp) \<noteq> e) hyps)"
  by (induction hyps arbitrary: ended remained) simp_all

lemma split_ended_Inr_nonempty:
  "split_ended e minlen args lm i hyps ended remained = Inr r \<Longrightarrow> \<forall>hyp\<in>set hyps. yseq hyp \<noteq> []"
  by (induction hyps arbitrary: ended remained) (auto split: if_splits)

lemma add_eos_props:
  "length (add_eos e hyps) = length hyps"
  "\<forall>hyp\<in>set (add_eos e hyps). yseq hyp \<noteq> [] \<and> last (yseq hyp) = e"
  "map yseq (add_eos e hyps) = map (\<lambda>hyp. yseq hyp @ [e]) hyps"
  "map score (add_eos e hyps) = map score hyps"
  by (simp_all add: add_eos_def)

text \<open>One step, once the pruned hypotheses are known.\<close>

lemma step_pruned:
  fixes maxlen minlen :: int and ended :: "('c, 's) hyp list"
  assumes pr: "prune (expand_hyp self h cps args lm i) (beam_size args) hyps [] = Inr kept"
    and pruned: "pruned = (if int i = maxlen - 1 then add_eos (eos self) kept else kept)"
    and ended': "ended' = ended @ map (\<lambda>hyp. hyp\<lparr>score := end_score args lm i hyp\<rparr>)
                     (filter (\<lambda>hyp. last (yseq hyp) = eos self \<and> minlen < int (length (yseq hyp)))
                        pruned)"
    and remained: "remained = filter (\<lambda>hyp. last (yseq hyp) \<noteq> eos self) pruned"
  shows "split_ended (eos self) minlen args lm i pruned ended [] = Inr (ended', remained)"
    and "step self hlp h cps args char_list lm maxlen minlen i hyps ended =
           (case log_best char_list kept of
              Some e \<Rightarrow> Inl e
            | None \<Rightarrow>
                if end_detect hlp ended' i \<and> maxlenratio args = 0 then Inr (ended', pruned, False)
                else if remained = [] then Inr (ended', remained, False)
                else (case log_remained char_list remained of
                        Some e \<Rightarrow> Inl e
                      | None \<Rightarrow> Inr (ended', remained, True)))"
proof -
  from pr have "\<forall>n\<in>set kept. yseq n \<noteq> []" by (rule pruned_nonempty)
  then have "\<forall>n\<in>set pruned. yseq n \<noteq> []"
    by (simp add: pruned add_eos_props(2))
  then show se: "split_ended (eos self) minlen args lm i pruned ended [] = Inr (ended', remained)"
    unfolding ended' remained by (simp add: split_ended_eq)
  have se': "split_ended (eos self) minlen args lm i
               (if int i = maxlen - 1 then add_eos (eos self) kept else kept) ended []
             = Inr (ended', remained)"
    using se unfolding pruned .
  show "step self hlp h cps args char_list lm maxlen minlen i hyps ended =
           (case log_best char_list kept of
              Some e \<Rightarrow> Inl e
            | None \<Rightarrow>
                if end_detect hlp ended' i \<and> maxlenratio args = 0 then Inr (ended', pruned, False)
                else if remained = [] then Inr (ended', remained, False)
                else (case log_remained char_list remained of
                        Some e \<Rightarrow> Inl e
                      | None \<Rightarrow> Inr (ended', remained, True)))"
    unfolding step_def pr sum.case Let_def se' prod.case pruned ..
qed

text \<open>
  Claim C7. With a beam size that is not negative, at every step the hypotheses left by the
  pruning are at most \<^verbatim>\<open>beam_size\<close>, and so are those that the step hands on.
\<close>

theorem beam_size_invariant:
  assumes "0 \<le> beam_size args"
  shows "(\<forall>kept. prune (expand_hyp self h cps args lm i) (beam_size args) hyps [] = Inr kept
            \<longrightarrow> int (length kept) \<le> beam_size args)
       \<and> (\<forall>ended' hyps' continue.
            step self hlp h cps args char_list lm maxlen minlen i hyps ended
              = Inr (ended', hyps', continue)
            \<longrightarrow> int (length hyps') \<le> beam_size args)"
proof (intro conjI allI impI)
  fix kept
  assume "prune (expand_hyp self h cps args lm i) (beam_size args) hyps [] = Inr kept"
  from prune_length [OF assms _ this] assms show "int (length kept) \<le> beam_size args"
    by simp
next
  fix ended' hyps' continue
  assume st: "step self hlp h cps args char_list lm maxlen minlen i hyps ended
                = Inr (ended', hyps', continue)"
  have "\<exists>kept. prune (expand_hyp self h cps args lm i) (beam_size args) hyps [] = Inr kept"
  proof (cases "prune (expand_hyp self h cps args lm i) (beam_size args) hyps []")
    case (Inl e)
    with st show ?thesis by (simp add: step_def)
  next
    case (Inr kept)
    then show ?thesis by blast
  qed
  then obtain kept
    where pr: "prune (expand_hyp self h cps args lm i) (beam_size args) hyps [] = Inr kept" ..
  from prune_length [OF assms _ pr] assms have k: "int (length kept) \<le> beam_size args"
    by simp
  define pruned where "pruned = (if int i = maxlen - 1 then add_eos (eos self) kept else kept)"
  define E where "E = ended @ map (\<lambda>hyp. hyp\<lparr>score := end_score args lm i hyp\<rparr>)
                     (filter (\<lambda>hyp. last (yseq hyp) = eos self \<and> minlen < int (length (yseq hyp)))
                        pruned)"
  define R where "R = filter (\<lambda>hyp. last (yseq hyp) \<noteq> eos self) pruned"
  have p: "length pruned = length kept" by (simp add: pruned_def add_eos_props(1))
  have r: "length R \<le> length pruned" by (simp add: R_def)
  from st have "hyps' = pruned \<or> hyps' = R"
    unfolding step_pruned(2) [OF pr pruned_def E_def R_def]
    by (auto split: option.splits if_splits)
  with p r k show "int (length hyps') \<le> beam_size args" by auto
qed

text \<open>
  Claim C3. At the step with \<open>i = maxlen - 1\<close> the end token is appended to the sequence of
  every hypothesis that survived the pruning, whatever its score: afterwards every one of
  them ends with the end token, none remains for a further step, and the loop stops.
\<close>

theorem force_eos:
  assumes final: "int i = maxlen - 1"
    and pr: "prune (expand_hyp self h cps args lm i) (beam_size args) hyps [] = Inr kept"
  shows "(\<forall>ended' hyps' continue.
            step self hlp h cps args char_list lm maxlen minlen i hyps ended
              = Inr (ended', hyps', continue)
            \<longrightarrow> \<not> continue
                \<and> (\<forall>hyp\<in>set hyps'. yseq hyp \<noteq> [] \<and> last (yseq hyp) = eos self)
                \<and> split_ended (eos self) minlen args lm i (add_eos (eos self) kept) ended []
                     = Inr (ended', []))
       \<and> map yseq (add_eos (eos self) kept) = map (\<lambda>hyp. yseq hyp @ [eos self]) kept
       \<and> map score (add_eos (eos self) kept) = map score kept
       \<and> (\<forall>hyp\<in>set (add_eos (eos self) kept). yseq hyp \<noteq> [] \<and> last (yseq hyp) = eos self)
       \<and> (log_best char_list kept = None
            \<longrightarrow> (\<exists>ended' hyps'. step self hlp h cps args char_list lm maxlen minlen i hyps ended
                                   = Inr (ended', hyps', False)))"
proof -
  define pruned where "pruned = (if int i = maxlen - 1 then add_eos (eos self) kept else kept)"
  define E where "E = ended @ map (\<lambda>hyp. hyp\<lparr>score := end_score args lm i hyp\<rparr>)
                     (filter (\<lambda>hyp. last (yseq hyp) = eos self \<and> minlen < int (length (yseq hyp)))
                        pruned)"
  define R where "R = filter (\<lambda>hyp. last (yseq hyp) \<noteq> eos self) pruned"
  from final have pa: "pruned = add_eos (eos self) kept" by (simp add: pruned_def)
  have all: "\<forall>hyp\<in>set pruned. yseq hyp \<noteq> [] \<and> last (yseq hyp) = eos self"
    unfolding pa by (rule add_eos_props(2))
  then have rem: "R = []"
    by (simp add: R_def filter_empty_conv)
  have se: "split_ended (eos self) minlen args lm i pruned ended [] = Inr (E, [])"
    using step_pruned(1) [OF pr pruned_def E_def R_def] unfolding rem .
  have st: "step self hlp h cps args char_list lm maxlen minlen i hyps ended =
           (case log_best char_list kept of
              Some e \<Rightarrow> Inl e
            | None \<Rightarrow>
                if end_detect hlp E i \<and> maxlenratio args = 0 then Inr (E, pruned, False)
                else Inr (E, [], False))"
    unfolding step_pruned(2) [OF pr pruned_def E_def R_def, of hlp char_list] rem
    by (cases "log_best char_list kept") simp_all
  have 1: "\<forall>ended' hyps' continue.
            step self hlp h cps args char_list lm maxlen minlen i hyps ended
              = Inr (ended', hyps', continue)
            \<longrightarrow> \<not> continue
                \<and> (\<forall>hyp\<in>set hyps'. yseq hyp \<noteq> [] \<and> last (yseq hyp) = eos self)
                \<and> split_ended (eos self) minlen args lm i pruned ended [] = Inr (ended', [])"
    unfolding st se using all by (auto split: option.splits if_splits)
  have 5: "log_best char_list kept = None
            \<longrightarrow> (\<exists>ended' hyps'. step self hlp h cps args char_list lm maxlen minlen i hyps ended
                                   = Inr (ended', hyps', False))"
    unfolding st by simp
  from 1 [unfolded pa] add_eos_props(3) [of "eos self" kept] add_eos_props(4) [of "eos self" kept]
    all [unfolded pa] 5
  show ?thesis by (intro conjI)
qed

lemma steps_invariant:
  assumes body: "\<And>i hyps ended ended' hyps' c.
                   body i hyps ended = Inr (ended', hyps', c) \<Longrightarrow> P ended \<Longrightarrow> P ended'"
  shows "P ended \<Longrightarrow> steps body is hyps ended = Inr r \<Longrightarrow> P r"
proof (induction "is" arbitrary: hyps ended)
  case Nil
  then show ?case by simp
next
  case (Cons i "is")
  from Cons.prems(2) obtain ended' hyps' c where b: "body i hyps ended = Inr (ended', hyps', c)"
    by (cases "body i hyps ended") auto
  from b Cons.prems(1) have P: "P ended'" by (rule body)
  show ?case
  proof (cases c)
    case True
    with Cons.prems(2) b have "steps body is hyps' ended' = Inr r" by simp
    with P show ?thesis by (rule Cons.IH)
  next
    case False
    with Cons.prems(2) b have "r = ended'" by simp
    with P show ?thesis by simp
  qed
qed

lemma step_Inr_pruned:
  assumes "step self hlp h cps args char_list lm maxlen minlen i hyps ended = Inr r"
  shows "\<exists>kept. prune (expand_hyp self h cps args lm i) (beam_size args) hyps [] = Inr kept"
proof (cases "prune (expand_hyp self h cps args lm i) (beam_size args) hyps []")
  case (Inl e)
  with assms show ?thesis by (simp add: step_def)
next
  case (Inr kept)
  then show ?thesis by blast
qed

text \<open>The ended hypotheses after a step: those before, and the pruned ones that end now.\<close>

lemma step_ended:
  fixes maxlen minlen :: int
  assumes st: "step self hlp h cps args char_list lm maxlen minlen i hyps ended
                 = Inr (ended', hyps', c)"
    and pr: "prune (expand_hyp self h cps args lm i) (beam_size args) hyps [] = Inr kept"
  shows "ended' = ended @ map (\<lambda>hyp. hyp\<lparr>score := end_score args lm i hyp\<rparr>)
           (filter (\<lambda>hyp. last (yseq hyp) = eos self \<and> minlen < int (length (yseq hyp)))
              (if int i = maxlen - 1 then add_eos (eos self) kept else kept))"
    and "c \<Longrightarrow> hyps' = filter (\<lambda>hyp. last (yseq hyp) \<noteq> eos self)
                          (if int i = maxlen - 1 then add_eos (eos self) kept else kept)"
proof -
  define pruned where "pruned = (if int i = maxlen - 1 then add_eos (eos self) kept else kept)"
  define E where "E = ended @ map (\<lambda>hyp. hyp\<lparr>score := end_score args lm i hyp\<rparr>)
                     (filter (\<lambda>hyp. last (yseq hyp) = eos self \<and> minlen < int (length (yseq hyp)))
                        pruned)"
  define R where "R = filter (\<lambda>hyp. last (yseq hyp) \<noteq> eos self) pruned"
  from st have "ended' = E \<and> (c \<longrightarrow> hyps' = R)"
    unfolding step_pruned(2) [OF pr pruned_def E_def R_def]
    by (auto split: option.splits if_splits)
  then show "ended' = ended @ map (\<lambda>hyp. hyp\<lparr>score := end_score args lm i hyp\<rparr>)
           (filter (\<lambda>hyp. last (yseq hyp) = eos self \<and> minlen < int (length (yseq hyp)))
              (if int i = maxlen - 1 then add_eos (eos self) kept else kept))"
    and "c \<Longrightarrow> hyps' = filter (\<lambda>hyp. last (yseq hyp) \<noteq> eos self)
                          (if int i = maxlen - 1 then add_eos (eos self) kept else kept)"
    unfolding E_def R_def pruned_def by simp_all
qed

lemma step_ended_minlen:
  assumes st: "step self hlp h cps args char_list lm maxlen minlen i hyps ended
                 = Inr (ended', hyps', c)"
    and inv: "\<forall>hyp\<in>set ended. minlen < int (length (yseq hyp))"
  shows "\<forall>hyp\<in>set ended'. minlen < int (length (yseq hyp))"
proof -
  from step_Inr_pruned [OF st] obtain kept
    where pr: "prune (expand_hyp self h cps args lm i) (beam_size args) hyps [] = Inr kept" ..
  show ?thesis
    unfolding step_ended(1) [OF st pr] using inv by auto
qed

lemma search_ended_minlen:
  assumes "search self hlp h lpz args char_list lm = Inr ended_hyps"
  shows "\<forall>hyp\<in>set ended_hyps. minlen_of args (shape0 h) < int (length (yseq hyp))"
proof -
  let ?cps = "map_option (\<lambda>z. (CTCPrefixScore hlp z 0 (eos self), ctc_beam_of args z)) lpz"
  let ?body = "step self hlp h ?cps args char_list lm (maxlen_of args (shape0 h))
                 (minlen_of args (shape0 h))"
  from assms
  have run: "steps ?body [0..<nat (maxlen_of args (shape0 h))]
               [init_hyp (sos self) (map_option fst ?cps)] [] = Inr ended_hyps"
    by (simp add: search_def Let_def)
  have inv: "\<forall>hyp\<in>set ended'. minlen_of args (shape0 h) < int (length (yseq hyp))"
    if "?body i hyps ended = Inr (ended', hyps', c)"
      and "\<forall>hyp\<in>set ended. minlen_of args (shape0 h) < int (length (yseq hyp))"
    for i hyps ended ended' hyps' c
    using that by (rule step_ended_minlen)
  from steps_invariant [of ?body
      "\<lambda>ended. \<forall>hyp\<in>set ended. minlen_of args (shape0 h) < int (length (yseq hyp))",
      OF inv _ run]
  show ?thesis by simp
qed

text \<open>
  Claim C9. At the step with \<open>i = maxlen - 1\<close>, a surviving hypothesis whose new token is
  already the end token still gets the end token appended, so its sequence ends with two
  end tokens; it is moved to the ended list exactly when this longer sequence is longer than
  \<^verbatim>\<open>minlen\<close>; and such a sequence is returned: on 4 frames with \<^verbatim>\<open>maxlenratio = 0.25\<close>
  and \<^verbatim>\<open>minlenratio = 0.5\<close> the result is the sequence of start token and two end tokens.
\<close>

theorem double_eos:
  fixes maxlen minlen :: int and ended :: "('c, 's) hyp list"
  assumes final: "int i = maxlen - 1"
    and pr: "prune (expand_hyp self h cps args lm i) (beam_size args) hyps [] = Inr kept"
    and mem: "hyp \<in> set kept" and eos: "last (yseq hyp) = eos self"
  shows "hyp\<lparr>yseq := yseq hyp @ [eos self]\<rparr> \<in> set (add_eos (eos self) kept)
       \<and> (\<exists>ys. yseq hyp @ [eos self] = ys @ [eos self, eos self])
       \<and> (\<forall>ended' hyps' continue.
            step self hlp h cps args char_list lm maxlen minlen i hyps ended
              = Inr (ended', hyps', continue)
            \<longrightarrow> (minlen < int (length (yseq hyp)) + 1
                   \<longrightarrow> hyp\<lparr>yseq := yseq hyp @ [eos self], score := end_score args lm i hyp\<rparr>
                         \<in> set ended')
                \<and> (\<not> minlen < int (length (yseq hyp)) + 1
                   \<longrightarrow> (\<forall>x\<in>set (drop (length ended) ended').
                          yseq x \<noteq> yseq hyp @ [eos self])))
       \<and> fst (recognize_beam 10 (toy_e2e [-4, -2, -3, -1] 4) (toy_helpers []) (toy_h 4) None
                [toy_args 1 0 0 0.25 0.5] 0 None (None :: unit rnnlm option))
           = Inr [\<lparr>score = -1, yseq = [3, 3, 3], rnnlm_prev = None,
                    ctc_state_prev = None, ctc_score_prev = None\<rparr>]"
proof -
  let ?h' = "hyp\<lparr>yseq := yseq hyp @ [eos self]\<rparr>"
  from mem have 1: "?h' \<in> set (add_eos (eos self) kept)"
    by (auto simp: add_eos_def)
  from pruned_nonempty [OF pr] mem have ne: "yseq hyp \<noteq> []" by blast
  with eos have "yseq hyp = butlast (yseq hyp) @ [eos self]"
    by (metis append_butlast_last_id)
  then have "yseq hyp @ [eos self] = butlast (yseq hyp) @ [eos self, eos self]"
    by (metis append.assoc append_Cons append_Nil)
  then have 2: "\<exists>ys. yseq hyp @ [eos self] = ys @ [eos self, eos self]" ..
  have 3: "\<forall>ended' hyps' continue.
            step self hlp h cps args char_list lm maxlen minlen i hyps ended
              = Inr (ended', hyps', continue)
            \<longrightarrow> (minlen < int (length (yseq hyp)) + 1
                   \<longrightarrow> hyp\<lparr>yseq := yseq hyp @ [eos self], score := end_score args lm i hyp\<rparr>
                         \<in> set ended')
                \<and> (\<not> minlen < int (length (yseq hyp)) + 1
                   \<longrightarrow> (\<forall>x\<in>set (drop (length ended) ended').
                          yseq x \<noteq> yseq hyp @ [eos self]))"
  proof (intro allI impI conjI)
    fix ended' hyps' continue
    assume st: "step self hlp h cps args char_list lm maxlen minlen i hyps ended
                  = Inr (ended', hyps', continue)"
    define added where "added = map (\<lambda>hyp. hyp\<lparr>score := end_score args lm i hyp\<rparr>)
           (filter (\<lambda>hyp. last (yseq hyp) = eos self \<and> minlen < int (length (yseq hyp)))
              (add_eos (eos self) kept))"
    from step_ended(1) [OF st pr] final have e: "ended' = ended @ added"
      by (simp add: added_def)
    have sc: "end_score args lm i ?h' = end_score args lm i hyp"
      by (simp add: end_score_def split: option.splits)
    {
      assume "minlen < int (length (yseq hyp)) + 1"
      with 1 have "?h'\<lparr>score := end_score args lm i ?h'\<rparr> \<in> set added"
        unfolding added_def by (auto simp: image_iff)
      then show "hyp\<lparr>yseq := yseq hyp @ [eos self], score := end_score args lm i hyp\<rparr>
                   \<in> set ended'"
        unfolding e sc by simp
    }
    {
      assume short: "\<not> minlen < int (length (yseq hyp)) + 1"
      have "\<forall>x\<in>set added. minlen < int (length (yseq x))"
        unfolding added_def by auto
      with short have "\<forall>x\<in>set added. yseq x \<noteq> yseq hyp @ [eos self]"
        by auto
      then show "\<forall>x\<in>set (drop (length ended) ended'). yseq x \<noteq> yseq hyp @ [eos self]"
        unfolding e by simp
    }
  qed
  have 4: "fst (recognize_beam 10 (toy_e2e [-4, -2, -3, -1] 4) (toy_helpers []) (toy_h 4) None
                [toy_args 1 0 0 0.25 0.5] 0 None (None :: unit rnnlm option))
           = Inr [\<lparr>score = -1, yseq = [3, 3, 3], rnnlm_prev = None,
                    ctc_state_prev = None, ctc_score_prev = None\<rparr>]"
    by code_simp
  from 1 2 3 4 show ?thesis by (intro conjI)
qed

subsection \<open>The result and the retry\<close>

lemma mset_sorted_reverse: "mset (sorted_reverse f xs) = mset xs"
  by (simp add: sorted_reverse_def)

lemma retry_store:
  "recog_args < length st \<Longrightarrow>
   (case namespace_copy st recog_args of
      (recog_args', st') \<Rightarrow>
        (set_minlenratio st' recog_args' (max 0 (minlenratio (st' ! recog_args') - 0.1)),
         recog_args'))
   = (st @ [(st ! recog_args)\<lparr>minlenratio := max 0 (minlenratio (st ! recog_args) - 0.1)\<rparr>],
      length st)"
  by (simp add: namespace_copy_def set_minlenratio_def)

lemma recognize_beam_Suc:
  assumes valid: "recog_args < length st"
    and s: "search self hlp h lpz (st ! recog_args) char_list lm = Inr ended_hyps"
  shows "recognize_beam (Suc depth) self hlp h lpz st recog_args char_list lm =
           (if ended_hyps = [] then
              recognize_beam depth self hlp h lpz
                (st @ [(st ! recog_args)\<lparr>minlenratio :=
                          max 0 (minlenratio (st ! recog_args) - 0.1)\<rparr>])
                (length st) char_list lm
            else (Inr (sorted_reverse score ended_hyps), st))"
proof -
  have e: "sorted_reverse score ended_hyps = [] \<longleftrightarrow> ended_hyps = []"
    using length_sorted_reverse [of score ended_hyps] by (metis length_0_conv)
  from valid have v: "\<not> length st \<le> recog_args" by simp
  show ?thesis
    unfolding recognize_beam.simps s sum.case Let_def length_0_conv e
    using v by (simp add: namespace_copy_def set_minlenratio_def)
qed

text \<open>
  Progress: with a beam of at least 1 and \<^verbatim>\<open>minlen\<close> at most 0, a step that goes on leaves
  a hypothesis, and a step that stops leaves an ended one; the last step always stops.
\<close>

lemma new_hyps_length:
  "new_hyps beam hyp scs ids lmst sel = Inr new \<Longrightarrow> length new = nat beam"
  by (auto simp: new_hyps_def split: if_splits)

lemma expand_hyp_length:
  assumes "expand_hyp self h cps args lm i hyp = Inr new"
  shows "length new = nat (beam_size args)"
proof -
  from assms obtain scs ids lmst sel
    where "new_hyps (beam_size args) hyp scs ids lmst sel = Inr new"
    unfolding expand_hyp_def Let_def
    by (auto split: sum.splits option.splits prod.splits)
  then show ?thesis by (rule new_hyps_length)
qed

lemma prune_result_nonempty:
  assumes len: "\<And>hyp new. ex hyp = Inr new \<Longrightarrow> length new = nat beam"
    and beam: "1 \<le> beam"
  shows "hyps \<noteq> [] \<Longrightarrow> prune ex beam hyps kept = Inr r \<Longrightarrow> r \<noteq> []"
proof (induction hyps arbitrary: kept)
  case Nil
  then show ?case by simp
next
  case (Cons hyp hyps)
  from Cons.prems(2) obtain new where new: "ex hyp = Inr new"
    and rest: "prune ex beam hyps (py_take beam (sorted_reverse score (kept @ new))) = Inr r"
    by (auto split: sum.splits)
  show ?case
  proof (cases "hyps = []")
    case True
    from len [OF new] beam have "new \<noteq> []" by auto
    then have "sorted_reverse score (kept @ new) \<noteq> []"
      using length_sorted_reverse [of score "kept @ new"] by (metis append_is_Nil_conv length_0_conv)
    with beam have "py_take beam (sorted_reverse score (kept @ new)) \<noteq> []"
      by (simp add: py_take_nonneg)
    with rest True show ?thesis by simp
  next
    case False
    from this rest show ?thesis by (rule Cons.IH)
  qed
qed

lemma step_progress:
  fixes maxlen minlen :: int
  assumes st: "step self hlp h cps args char_list lm maxlen minlen i hyps ended
                 = Inr (ended', hyps', c)"
    and hyps: "hyps \<noteq> []" and beam: "1 \<le> beam_size args" and minlen: "minlen \<le> 0"
    and ed: "\<forall>j. \<not> end_detect hlp [] j"
  shows "c \<Longrightarrow> hyps' \<noteq> []" and "\<not> c \<Longrightarrow> ended' \<noteq> []" and "int i = maxlen - 1 \<Longrightarrow> \<not> c"
proof -
  from step_Inr_pruned [OF st] obtain kept
    where pr: "prune (expand_hyp self h cps args lm i) (beam_size args) hyps [] = Inr kept" ..
  have kept: "kept \<noteq> []"
    using expand_hyp_length beam hyps pr
    by (rule prune_result_nonempty [where ex = "expand_hyp self h cps args lm i"])
  define pruned where "pruned = (if int i = maxlen - 1 then add_eos (eos self) kept else kept)"
  define E where "E = ended @ map (\<lambda>hyp. hyp\<lparr>score := end_score args lm i hyp\<rparr>)
                     (filter (\<lambda>hyp. last (yseq hyp) = eos self \<and> minlen < int (length (yseq hyp)))
                        pruned)"
  define R where "R = filter (\<lambda>hyp. last (yseq hyp) \<noteq> eos self) pruned"
  from kept have pne: "pruned \<noteq> []"
    using add_eos_props(1) [of "eos self" kept] by (auto simp: pruned_def)
  from pruned_nonempty [OF pr] have yne: "\<forall>n\<in>set pruned. yseq n \<noteq> []"
    by (simp add: pruned_def add_eos_props(2))
  have RE: "E \<noteq> []" if "R = []"
  proof -
    from that have "\<forall>n\<in>set pruned. last (yseq n) = eos self"
      by (simp add: R_def filter_empty_conv)
    moreover have "minlen < int (length (yseq n))" if "n \<in> set pruned" for n
    proof -
      from yne that have "0 < length (yseq n)" by simp
      with minlen show ?thesis by linarith
    qed
    ultimately
    have "filter (\<lambda>hyp. last (yseq hyp) = eos self \<and> minlen < int (length (yseq hyp))) pruned
            = pruned"
      by (simp add: filter_id_conv)
    with pne show ?thesis by (simp add: E_def)
  qed
  have DE: "E \<noteq> []" if "end_detect hlp E i"
    using that ed by auto
  have final: "R = []" if "int i = maxlen - 1"
    using that add_eos_props(2) [of "eos self" kept]
    by (simp add: R_def pruned_def filter_empty_conv)
  from st have cases: "(c \<and> hyps' = R \<and> R \<noteq> [] \<and> ended' = E)
      \<or> (\<not> c \<and> ended' = E \<and> (end_detect hlp E i \<or> R = []))"
    unfolding step_pruned(2) [OF pr pruned_def E_def R_def]
    by (auto split: option.splits if_splits)
  from cases show "c \<Longrightarrow> hyps' \<noteq> []" by auto
  from cases RE DE show "\<not> c \<Longrightarrow> ended' \<noteq> []" by auto
  from cases final show "int i = maxlen - 1 \<Longrightarrow> \<not> c" by auto
qed

lemma steps_result_nonempty:
  assumes prog: "\<And>i hyps ended ended' hyps' c.
        body i hyps ended = Inr (ended', hyps', c) \<Longrightarrow> hyps \<noteq> [] \<Longrightarrow>
        (c \<longrightarrow> hyps' \<noteq> []) \<and> (\<not> c \<longrightarrow> ended' \<noteq> []) \<and> (int i = maxlen - 1 \<longrightarrow> \<not> c)"
  shows "js \<noteq> [] \<Longrightarrow> int (last js) = maxlen - 1 \<Longrightarrow> hyps \<noteq> []
           \<Longrightarrow> steps body js hyps ended = Inr r \<Longrightarrow> r \<noteq> []"
proof (induction js arbitrary: hyps ended)
  case Nil
  then show ?case by simp
next
  case (Cons i js)
  from Cons.prems(4) obtain ended' hyps' c where b: "body i hyps ended = Inr (ended', hyps', c)"
    by (cases "body i hyps ended") auto
  note p = prog [OF b Cons.prems(3)]
  show ?case
  proof (cases c)
    case False
    with Cons.prems(4) b have "r = ended'" by simp
    with p False show ?thesis by simp
  next
    case True
    with Cons.prems(4) b have run: "steps body js hyps' ended' = Inr r" by simp
    from p True have h': "hyps' \<noteq> []" and nf: "int i \<noteq> maxlen - 1" by auto
    from nf Cons.prems(2) have js: "js \<noteq> []" by (cases js) auto
    with Cons.prems(2) have "int (last js) = maxlen - 1" by simp
    from js this h' run show ?thesis by (rule Cons.IH)
  qed
qed

lemma search_result_nonempty:
  assumes s: "search self hlp h lpz args char_list lm = Inr ended_hyps"
    and beam: "1 \<le> beam_size args" and maxlen: "1 \<le> maxlen_of args (shape0 h)"
    and minlen: "minlen_of args (shape0 h) \<le> 0"
    and ed: "\<forall>j. \<not> end_detect hlp [] j"
  shows "ended_hyps \<noteq> []"
proof -
  let ?cps = "map_option (\<lambda>z. (CTCPrefixScore hlp z 0 (eos self), ctc_beam_of args z)) lpz"
  let ?maxlen = "maxlen_of args (shape0 h)"
  let ?body = "step self hlp h ?cps args char_list lm ?maxlen (minlen_of args (shape0 h))"
  from s have run: "steps ?body [0..<nat ?maxlen]
               [init_hyp (sos self) (map_option fst ?cps)] [] = Inr ended_hyps"
    by (simp add: search_def Let_def)
  have prog: "(c \<longrightarrow> hyps' \<noteq> []) \<and> (\<not> c \<longrightarrow> ended' \<noteq> []) \<and> (int i = ?maxlen - 1 \<longrightarrow> \<not> c)"
    if "?body i hyps ended = Inr (ended', hyps', c)" and "hyps \<noteq> []"
    for i hyps ended ended' hyps' c
    using step_progress [OF that beam minlen ed] by blast
  from maxlen have ne: "[0..<nat ?maxlen] \<noteq> []" by simp
  from maxlen have la: "int (last [0..<nat ?maxlen]) = ?maxlen - 1"
    by simp
  have init: "[init_hyp (sos self) (map_option fst ?cps)] \<noteq> []" by simp
  from steps_result_nonempty [of ?body ?maxlen, OF prog ne la init run]
  show ?thesis .
qed

lemma minlen_of_zero: "minlenratio args = 0 \<Longrightarrow> minlen_of args L = 0"
  by (simp add: minlen_of_def py_int_def)

lemma maxlen_of_minlenratio: "maxlen_of (args\<lparr>minlenratio := m\<rparr>) L = maxlen_of args L"
  by (simp add: maxlen_of_def)

text \<open>
  With enough stack frames for the retries, one frame for every tenth in
  \<^verbatim>\<open>minlenratio\<close> and one more, \<^verbatim>\<open>recognize_beam\<close> returns a list that is not empty,
  when no pass of the search raises.
\<close>

lemma recognize_beam_returns:
  assumes ed: "\<forall>j. \<not> end_detect hlp [] j"
    and ok: "\<forall>m. \<exists>r. search self hlp h lpz (args\<lparr>minlenratio := m\<rparr>) char_list lm = Inr r"
    and beam: "1 \<le> beam_size args" and maxlen: "1 \<le> maxlen_of args (shape0 h)"
  shows "recog_args < length st \<Longrightarrow> st ! recog_args = args\<lparr>minlenratio := m\<rparr> \<Longrightarrow> 0 \<le> m
           \<Longrightarrow> 10 * m + 1 \<le> real depth
           \<Longrightarrow> \<exists>nbest st'. recognize_beam depth self hlp h lpz st recog_args char_list lm
                               = (Inr nbest, st') \<and> nbest \<noteq> []"
proof (induction depth arbitrary: st recog_args m)
  case 0
  then show ?case by simp
next
  case (Suc depth)
  from ok obtain ended_hyps
    where s: "search self hlp h lpz (st ! recog_args) char_list lm = Inr ended_hyps"
    unfolding Suc.prems(2) by blast
  note r = recognize_beam_Suc [OF Suc.prems(1) s, of depth]
  show ?case
  proof (cases "ended_hyps = []")
    case False
    then have "recognize_beam (Suc depth) self hlp h lpz st recog_args char_list lm
                 = (Inr (sorted_reverse score ended_hyps), st)"
      by (simp only: r if_False simp_thms)
    moreover from False have "sorted_reverse score ended_hyps \<noteq> []"
      using length_sorted_reverse [of score ended_hyps] by (metis length_0_conv)
    ultimately show ?thesis by blast
  next
    case True
    have pos: "0 < m"
    proof (rule ccontr)
      assume "\<not> 0 < m"
      with Suc.prems(3) have "m = 0" by simp
      then have "minlen_of (st ! recog_args) (shape0 h) \<le> 0"
        by (simp add: Suc.prems(2) minlen_of_zero)
      moreover have "1 \<le> beam_size (st ! recog_args)"
        using beam by (simp add: Suc.prems(2))
      moreover have "1 \<le> maxlen_of (st ! recog_args) (shape0 h)"
        using maxlen by (simp add: Suc.prems(2) maxlen_of_minlenratio)
      ultimately have "ended_hyps \<noteq> []"
        using s ed by (intro search_result_nonempty [OF s]) simp_all
      with True show False by simp
    qed
    let ?m = "max 0 (m - 0.1)"
    let ?st = "st @ [(st ! recog_args)\<lparr>minlenratio :=
                        max 0 (minlenratio (st ! recog_args) - 0.1)\<rparr>]"
    have a: "length st < length ?st" by simp
    have b: "?st ! length st = args\<lparr>minlenratio := ?m\<rparr>"
      by (simp add: Suc.prems(2))
    have c: "0 \<le> ?m" by simp
    from Suc.prems(4) have "10 * m \<le> real depth" by simp
    moreover from this pos have "1 \<le> real depth"
      by (cases depth) simp_all
    ultimately have d: "10 * ?m + 1 \<le> real depth" by (simp add: max_def)
    from Suc.IH [OF a b c d] True show ?thesis
      by (simp only: r if_True simp_thms)
  qed
qed

text \<open>Without CTC, language model and character list no pass of the search raises.\<close>

lemma expand_hyp_plain:
  assumes "0 \<le> beam_size args" and "beam_size args \<le> int (odim self)"
  shows "\<exists>new. expand_hyp self h None args None i hyp = Inr new"
proof -
  have "length (py_take (beam_size args)
          (argsort_desc (local_att_scores self h (yseq hyp)))) = min (nat (beam_size args)) (odim self)"
    using assms(1) by (simp add: length_top_argsort_desc length_local_att_scores)
  with assms show ?thesis
    by (simp add: expand_hyp_def lm_predict_None local_scores_no_lm new_hyps_def Let_def)
qed

lemma prune_returns:
  assumes "\<And>hyp. \<exists>new. ex hyp = Inr new"
  shows "\<exists>r. prune ex beam hyps kept = Inr r"
proof (induction hyps arbitrary: kept)
  case Nil
  show ?case by simp
next
  case (Cons hyp hyps)
  from assms obtain new where "ex hyp = Inr new" by blast
  with Cons.IH show ?case by simp
qed

lemma step_plain:
  fixes maxlen minlen :: int
  assumes "0 \<le> beam_size args" and "beam_size args \<le> int (odim self)"
  shows "\<exists>r. step self hlp h None args None None maxlen minlen i hyps ended = Inr r"
proof -
  from prune_returns [of "expand_hyp self h None args None i", OF expand_hyp_plain [OF assms]]
  obtain kept
    where pr: "prune (expand_hyp self h None args None i) (beam_size args) hyps [] = Inr kept"
    by blast
  define pruned where "pruned = (if int i = maxlen - 1 then add_eos (eos self) kept else kept)"
  define E where "E = ended @ map (\<lambda>hyp. hyp\<lparr>score := end_score args None i hyp\<rparr>)
                     (filter (\<lambda>hyp. last (yseq hyp) = eos self \<and> minlen < int (length (yseq hyp)))
                        pruned)"
  define R where "R = filter (\<lambda>hyp. last (yseq hyp) \<noteq> eos self) pruned"
  have eq: "step self hlp h None args None None maxlen minlen i hyps ended =
          (if end_detect hlp E i \<and> maxlenratio args = 0 then Inr (E, pruned, False)
           else if R = [] then Inr (E, R, False) else Inr (E, R, True))"
    unfolding step_pruned(2) [OF pr pruned_def E_def R_def]
    by (simp add: log_best_def log_remained_def)
  consider (stop) "end_detect hlp E i \<and> maxlenratio args = 0"
    | (empty) "\<not> (end_detect hlp E i \<and> maxlenratio args = 0)" "R = []"
    | (go) "\<not> (end_detect hlp E i \<and> maxlenratio args = 0)" "R \<noteq> []"
    by blast
  then show ?thesis
  proof cases
    case stop
    then have "step self hlp h None args None None maxlen minlen i hyps ended
                 = Inr (E, pruned, False)"
      unfolding eq by auto
    then show ?thesis ..
  next
    case empty
    then have "step self hlp h None args None None maxlen minlen i hyps ended
                 = Inr (E, R, False)"
      unfolding eq by auto
    then show ?thesis ..
  next
    case go
    then have "step self hlp h None args None None maxlen minlen i hyps ended
                 = Inr (E, R, True)"
      unfolding eq by auto
    then show ?thesis ..
  qed
qed

lemma steps_returns:
  assumes "\<And>i hyps ended. \<exists>r. body i hyps ended = Inr r"
  shows "\<exists>r. steps body js hyps ended = Inr r"
proof (induction js arbitrary: hyps ended)
  case Nil
  show ?case by simp
next
  case (Cons i js)
  from assms obtain ended' hyps' c where b: "body i hyps ended = Inr (ended', hyps', c)"
    by (metis prod_cases3)
  show ?case
  proof (cases c)
    case True
    with b Cons.IH [of hyps' ended'] show ?thesis by simp
  next
    case False
    with b show ?thesis by simp
  qed
qed

lemma search_plain:
  assumes "0 \<le> beam_size args" and "beam_size args \<le> int (odim self)"
  shows "\<exists>r. search self hlp h None args None None = Inr r"
  unfolding search_def Let_def option.map
  by (rule steps_returns) (rule step_plain [OF assms])

text \<open>
  Claim C4. After the loop, a list of ended hypotheses that is not empty is returned sorted by
  score in descending order (a permutation of the list); with an empty list
  \<^verbatim>\<open>recognize_beam\<close> calls itself on a copy of the arguments whose \<^verbatim>\<open>minlenratio\<close> is
  reduced by 0.1 and not below 0, and returns what that call returns. The retries end:
  with a beam of at least 1, at least one step, an \<^verbatim>\<open>end_detect\<close> that does not stop on an
  empty list, no pass that raises, and a stack frame for every tenth in \<^verbatim>\<open>minlenratio\<close>
  and one more, a list that is not empty is returned.
\<close>

theorem nbest_or_retry:
  assumes valid: "recog_args < length st"
    and s: "search self hlp h lpz (st ! recog_args) char_list lm = Inr ended_hyps"
  shows "(ended_hyps \<noteq> [] \<longrightarrow>
            (\<exists>nbest. recognize_beam (Suc depth) self hlp h lpz st recog_args char_list lm
                       = (Inr nbest, st)
                   \<and> sorted_wrt (\<lambda>a b. score b \<le> score a) nbest
                   \<and> mset nbest = mset ended_hyps
                   \<and> nbest = sorted_reverse score ended_hyps))
       \<and> (ended_hyps = [] \<longrightarrow>
            recognize_beam (Suc depth) self hlp h lpz st recog_args char_list lm
              = recognize_beam depth self hlp h lpz
                  (st @ [(st ! recog_args)\<lparr>minlenratio :=
                            max 0 (minlenratio (st ! recog_args) - 0.1)\<rparr>])
                  (length st) char_list lm
            \<and> 0 \<le> max 0 (minlenratio (st ! recog_args) - 0.1)
            \<and> (0.1 \<le> minlenratio (st ! recog_args)
                 \<longrightarrow> max 0 (minlenratio (st ! recog_args) - 0.1)
                       = minlenratio (st ! recog_args) - 0.1))
       \<and> (1 \<le> beam_size (st ! recog_args) \<and> 1 \<le> maxlen_of (st ! recog_args) (shape0 h)
          \<and> 0 \<le> minlenratio (st ! recog_args)
          \<and> 10 * minlenratio (st ! recog_args) + 1 \<le> real frames
          \<and> (\<forall>j. \<not> end_detect hlp [] j)
          \<and> (\<forall>m. \<exists>r. search self hlp h lpz ((st ! recog_args)\<lparr>minlenratio := m\<rparr>)
                         char_list lm = Inr r)
          \<longrightarrow> (\<exists>nbest st'. recognize_beam frames self hlp h lpz st recog_args char_list lm
                                = (Inr nbest, st') \<and> nbest \<noteq> []))"
proof (intro conjI impI)
  note r = recognize_beam_Suc [OF valid s, of depth]
  assume "ended_hyps \<noteq> []"
  then have "recognize_beam (Suc depth) self hlp h lpz st recog_args char_list lm
               = (Inr (sorted_reverse score ended_hyps), st)"
    by (simp only: r if_False simp_thms)
  then show "\<exists>nbest. recognize_beam (Suc depth) self hlp h lpz st recog_args char_list lm
                       = (Inr nbest, st)
                   \<and> sorted_wrt (\<lambda>a b. score b \<le> score a) nbest
                   \<and> mset nbest = mset ended_hyps
                   \<and> nbest = sorted_reverse score ended_hyps"
    by (simp add: sorted_sorted_reverse mset_sorted_reverse)
next
  assume "ended_hyps = []"
  then show "recognize_beam (Suc depth) self hlp h lpz st recog_args char_list lm
              = recognize_beam depth self hlp h lpz
                  (st @ [(st ! recog_args)\<lparr>minlenratio :=
                            max 0 (minlenratio (st ! recog_args) - 0.1)\<rparr>])
                  (length st) char_list lm"
    by (simp only: recognize_beam_Suc [OF valid s, of depth] if_True simp_thms)
next
  show "0 \<le> max 0 (minlenratio (st ! recog_args) - 0.1)" by simp
next
  assume "0.1 \<le> minlenratio (st ! recog_args)"
  then show "max 0 (minlenratio (st ! recog_args) - 0.1) = minlenratio (st ! recog_args) - 0.1"
    by simp
next
  assume a: "1 \<le> beam_size (st ! recog_args) \<and> 1 \<le> maxlen_of (st ! recog_args) (shape0 h)
          \<and> 0 \<le> minlenratio (st ! recog_args)
          \<and> 10 * minlenratio (st ! recog_args) + 1 \<le> real frames
          \<and> (\<forall>j. \<not> end_detect hlp [] j)
          \<and> (\<forall>m. \<exists>r. search self hlp h lpz ((st ! recog_args)\<lparr>minlenratio := m\<rparr>)
                         char_list lm = Inr r)"
  have same: "st ! recog_args
                = (st ! recog_args)\<lparr>minlenratio := minlenratio (st ! recog_args)\<rparr>"
    by simp
  from a have "\<forall>j. \<not> end_detect hlp [] j"
    and "\<forall>m. \<exists>r. search self hlp h lpz ((st ! recog_args)\<lparr>minlenratio := m\<rparr>)
                   char_list lm = Inr r"
    and "1 \<le> beam_size (st ! recog_args)" and "1 \<le> maxlen_of (st ! recog_args) (shape0 h)"
    and "0 \<le> minlenratio (st ! recog_args)"
    and "10 * minlenratio (st ! recog_args) + 1 \<le> real frames"
    by blast+
  from recognize_beam_returns [OF this(1-4) valid same this(5,6)]
  show "\<exists>nbest st'. recognize_beam frames self hlp h lpz st recog_args char_list lm
                       = (Inr nbest, st') \<and> nbest \<noteq> []" .
qed

lemma recognize_beam_nonempty:
  "recognize_beam depth self hlp h lpz st recog_args char_list lm = (Inr nbest, st')
     \<Longrightarrow> nbest \<noteq> []"
proof (induction depth arbitrary: st recog_args)
  case 0
  then show ?case by simp
next
  case (Suc depth)
  show ?case
  proof (cases "recog_args < length st")
    case False
    with Suc.prems show ?thesis by simp
  next
    case valid: True
    show ?thesis
    proof (cases "search self hlp h lpz (st ! recog_args) char_list lm")
      case (Inl e)
      with Suc.prems valid show ?thesis by simp
    next
      case (Inr ended_hyps)
      note r = recognize_beam_Suc [OF valid Inr, of depth]
      show ?thesis
      proof (cases "ended_hyps = []")
        case True
        with Suc.prems r
        have "recognize_beam depth self hlp h lpz
                (st @ [(st ! recog_args)\<lparr>minlenratio :=
                          max 0 (minlenratio (st ! recog_args) - 0.1)\<rparr>])
                (length st) char_list lm = (Inr nbest, st')"
          by simp
        then show ?thesis by (rule Suc.IH)
      next
        case False
        with Suc.prems r have "nbest = sorted_reverse score ended_hyps" by simp
        with False show ?thesis
          using length_sorted_reverse [of score ended_hyps] by (metis length_0_conv)
      qed
    qed
  qed
qed

lemma steps_beam_empty:
  "body i hyps ended = Inr ([], hyps', False) \<Longrightarrow> steps body (i # is) hyps ended = Inr []"
  by simp

lemma recognize_beam_store:
  "take (length st) (snd (recognize_beam depth self hlp h lpz st recog_args char_list lm)) = st"
proof (induction depth arbitrary: st recog_args)
  case 0
  show ?case by simp
next
  case (Suc depth)
  show ?case
  proof (cases "recog_args < length st")
    case False
    then show ?thesis by simp
  next
    case valid: True
    show ?thesis
    proof (cases "search self hlp h lpz (st ! recog_args) char_list lm")
      case (Inl e)
      with valid show ?thesis by simp
    next
      case (Inr ended_hyps)
      note r = recognize_beam_Suc [OF valid Inr, of depth]
      show ?thesis
      proof (cases "ended_hyps = []")
        case True
        let ?st = "st @ [(st ! recog_args)\<lparr>minlenratio :=
                          max 0 (minlenratio (st ! recog_args) - 0.1)\<rparr>]"
        let ?res = "snd (recognize_beam depth self hlp h lpz ?st (length st) char_list lm)"
        have "take (length ?st) ?res = ?st" by (rule Suc.IH)
        then have "take (length st) (take (length ?st) ?res) = take (length st) ?st" by simp
        then have "take (length st) ?res = st" by (simp add: min_def)
        with True r show ?thesis by simp
      next
        case False
        with r show ?thesis by simp
      qed
    qed
  qed
qed

text \<open>
  What is returned has passed the length test of the pass that returned it: the first pass
  when the store is as before, and otherwise the pass of the last copy of the arguments.
\<close>

lemma recognize_beam_last_pass:
  assumes "recognize_beam depth self hlp h lpz st recog_args char_list lm = (Inr nbest, st')"
    and "hyp \<in> set nbest"
  shows "minlen_of (if length st' = length st then st ! recog_args else last st') (shape0 h)
           < int (length (yseq hyp))"
  using assms
proof (induction depth arbitrary: st recog_args)
  case 0
  then show ?case by simp
next
  case (Suc depth)
  show ?case
  proof (cases "recog_args < length st")
    case False
    with Suc.prems(1) show ?thesis by simp
  next
    case valid: True
    show ?thesis
    proof (cases "search self hlp h lpz (st ! recog_args) char_list lm")
      case (Inl e)
      with Suc.prems(1) valid show ?thesis by simp
    next
      case (Inr ended_hyps)
      note r = recognize_beam_Suc [OF valid Inr, of depth]
      show ?thesis
      proof (cases "ended_hyps = []")
        case False
        with Suc.prems(1) have "nbest = sorted_reverse score ended_hyps" and "st' = st"
          by (simp_all only: r if_False simp_thms prod.inject sum.inject)
        with Suc.prems(2) search_ended_minlen [OF Inr] show ?thesis
          by (simp add: set_sorted_reverse)
      next
        case True
        let ?x = "(st ! recog_args)\<lparr>minlenratio := max 0 (minlenratio (st ! recog_args) - 0.1)\<rparr>"
        let ?st = "st @ [?x]"
        from True Suc.prems(1)
        have rec: "recognize_beam depth self hlp h lpz ?st (length st) char_list lm
                     = (Inr nbest, st')"
          by (simp only: r if_True simp_thms)
        from Suc.IH [OF rec Suc.prems(2)]
        have IH: "minlen_of (if length st' = length ?st then ?st ! length st else last st')
                    (shape0 h) < int (length (yseq hyp))" .
        from recognize_beam_store [of ?st depth self hlp h lpz "length st" char_list lm] rec
        have t: "take (length ?st) st' = ?st" by simp
        then have ge: "length ?st \<le> length st'"
          by (metis length_take min.cobounded1)
        then have ne: "length st' \<noteq> length st" by simp
        have "last st' = ?x" if "length st' = length ?st"
        proof -
          from t that have "st' = ?st" by simp
          then show ?thesis by simp
        qed
        with IH have "minlen_of (last st') (shape0 h) < int (length (yseq hyp))"
          by (cases "length st' = length ?st") simp_all
        with ne show ?thesis by simp
      qed
    qed
  qed
qed

text \<open>
  Claim C2, as the code has it. At step \<open>i\<close>, a pruned hypothesis whose last token is the end
  token and whose sequence (start token included) is longer than \<^verbatim>\<open>minlen\<close> gets
  \<open>(i + 1) * penalty\<close> added to its score, and \<^verbatim>\<open>lm_weight\<close> times the final score of the
  language model when there is one, and is appended to the ended list; one that is not
  longer than \<^verbatim>\<open>minlen\<close> is in neither the ended list nor the next beam; the others form the
  next beam. With \<^verbatim>\<open>minlenratio = 0.5\<close> on 10 frames no hypothesis of fewer than 5 tokens
  (indeed none of 5 or fewer) is in the ended list of the pass of the search that runs with
  this ratio, nor in the result of \<^verbatim>\<open>recognize_beam\<close> when that pass ends with a list that
  is not empty. A retry runs with its own, smaller \<^verbatim>\<open>minlen\<close>: what \<^verbatim>\<open>recognize_beam\<close>
  returns is longer than the \<^verbatim>\<open>minlen\<close> of the pass that returned it.
\<close>

theorem completion_filtering:
  fixes maxlen minlen :: int and ended :: "('c, 's) hyp list" and self :: "('x, 'd) e2e"
  assumes pr: "prune (expand_hyp self h cps args lm i) (beam_size args) hyps [] = Inr kept"
  defines "pruned \<equiv> (if int i = maxlen - 1 then add_eos (eos self) kept else kept)"
  defines "added \<equiv> map (\<lambda>hyp. hyp\<lparr>score := score hyp + (real i + 1) * penalty args
                         + (case lm of None \<Rightarrow> 0
                            | Some m \<Rightarrow> lm_weight args * final m (rnnlm_prev hyp))\<rparr>)
                    (filter (\<lambda>hyp. last (yseq hyp) = eos self \<and> minlen < int (length (yseq hyp)))
                       pruned)"
  defines "remained \<equiv> filter (\<lambda>hyp. last (yseq hyp) \<noteq> eos self) pruned"
  shows "split_ended (eos self) minlen args lm i pruned ended [] = Inr (ended @ added, remained)
       \<and> (\<forall>ended' hyps' continue.
            step self hlp h cps args char_list lm maxlen minlen i hyps ended
              = Inr (ended', hyps', continue)
            \<longrightarrow> ended' = ended @ added \<and> (continue \<longrightarrow> hyps' = remained))
       \<and> (\<forall>hyp\<in>set pruned. last (yseq hyp) = eos self \<and> int (length (yseq hyp)) \<le> minlen
            \<longrightarrow> (\<forall>x\<in>set added \<union> set remained. yseq x \<noteq> yseq hyp))
       \<and> (\<forall>a d z cl ended_hyps.
            minlenratio a = 0.5 \<and> shape0 d = 10
            \<and> search self hlp d z a cl lm = Inr ended_hyps
            \<longrightarrow> (\<forall>hyp\<in>set ended_hyps. \<not> length (yseq hyp) < 5 \<and> 5 < length (yseq hyp)))
       \<and> (\<forall>depth st ra d z cl ended_hyps nbest st'.
            ra < length st \<and> minlenratio (st ! ra) = 0.5 \<and> shape0 d = 10
            \<and> search self hlp d z (st ! ra) cl lm = Inr ended_hyps \<and> ended_hyps \<noteq> []
            \<and> recognize_beam depth self hlp d z st ra cl lm = (Inr nbest, st')
            \<longrightarrow> (\<forall>hyp\<in>set nbest. \<not> length (yseq hyp) < 5 \<and> 5 < length (yseq hyp)))
       \<and> (\<forall>depth st ra d z cl nbest st'.
            recognize_beam depth self hlp d z st ra cl lm = (Inr nbest, st')
            \<longrightarrow> (\<forall>hyp\<in>set nbest.
                   minlen_of (if length st' = length st then st ! ra else last st') (shape0 d)
                     < int (length (yseq hyp))))"
proof -
  have added: "added = map (\<lambda>hyp. hyp\<lparr>score := end_score args lm i hyp\<rparr>)
                    (filter (\<lambda>hyp. last (yseq hyp) = eos self \<and> minlen < int (length (yseq hyp)))
                       pruned)"
    unfolding added_def by (simp add: end_score_eq)
  have E: "ended @ added = ended @ added" ..
  have P: "pruned = (if int i = maxlen - 1 then add_eos (eos self) kept else kept)"
    by (simp add: pruned_def)
  have R: "remained = filter (\<lambda>hyp. last (yseq hyp) \<noteq> eos self) pruned"
    by (simp add: remained_def)
  have 1: "split_ended (eos self) minlen args lm i pruned ended [] = Inr (ended @ added, remained)"
    using pr P E [unfolded added] R unfolding added by (rule step_pruned(1))
  have 2: "\<forall>ended' hyps' continue.
            step self hlp h cps args char_list lm maxlen minlen i hyps ended
              = Inr (ended', hyps', continue)
            \<longrightarrow> ended' = ended @ added \<and> (continue \<longrightarrow> hyps' = remained)"
    unfolding added R P using step_ended [OF _ pr] by blast
  have 3: "\<forall>hyp\<in>set pruned. last (yseq hyp) = eos self \<and> int (length (yseq hyp)) \<le> minlen
            \<longrightarrow> (\<forall>x\<in>set added \<union> set remained. yseq x \<noteq> yseq hyp)"
    unfolding added R by auto
  have 4: "\<forall>a d z cl ended_hyps.
            minlenratio a = 0.5 \<and> shape0 d = 10
            \<and> search self hlp d z a cl lm = Inr ended_hyps
            \<longrightarrow> (\<forall>hyp\<in>set ended_hyps. \<not> length (yseq hyp) < 5 \<and> 5 < length (yseq hyp))"
  proof (intro allI impI ballI)
    fix a :: recog_args and d :: "'d encoded" and z cl and ended_hyps :: "('c, 's) hyp list" and hyp
    assume a: "minlenratio a = 0.5 \<and> shape0 d = 10
               \<and> search self hlp d z a cl lm = Inr ended_hyps"
      and hyp: "hyp \<in> set ended_hyps"
    from a have m: "minlenratio a = 1 / 2" and d: "shape0 d = 10" by simp_all
    have "minlen_of a (shape0 d) = 5"
      unfolding minlen_of_def py_int_def m d by simp
    with search_ended_minlen [of self hlp d z a cl lm ended_hyps] a hyp
    have "5 < int (length (yseq hyp))" by auto
    then show "\<not> length (yseq hyp) < 5 \<and> 5 < length (yseq hyp)" by simp
  qed
  have 5: "\<forall>depth st ra d z cl ended_hyps nbest st'.
            ra < length st \<and> minlenratio (st ! ra) = 0.5 \<and> shape0 d = 10
            \<and> search self hlp d z (st ! ra) cl lm = Inr ended_hyps \<and> ended_hyps \<noteq> []
            \<and> recognize_beam depth self hlp d z st ra cl lm = (Inr nbest, st')
            \<longrightarrow> (\<forall>hyp\<in>set nbest. \<not> length (yseq hyp) < 5 \<and> 5 < length (yseq hyp))"
  proof (intro allI impI ballI)
    fix depth :: nat and st :: store and ra :: nat and d :: "'d encoded" and z cl
      and ended_hyps nbest :: "('c, 's) hyp list" and st' :: store and hyp
    assume a: "ra < length st \<and> minlenratio (st ! ra) = 0.5 \<and> shape0 d = 10
            \<and> search self hlp d z (st ! ra) cl lm = Inr ended_hyps \<and> ended_hyps \<noteq> []
            \<and> recognize_beam depth self hlp d z st ra cl lm = (Inr nbest, st')"
      and hyp: "hyp \<in> set nbest"
    from a have v: "ra < length st"
      and s: "search self hlp d z (st ! ra) cl lm = Inr ended_hyps"
      and ne: "ended_hyps \<noteq> []"
      and r: "recognize_beam depth self hlp d z st ra cl lm = (Inr nbest, st')"
      by simp_all
    from r obtain depth' where dp: "depth = Suc depth'" by (cases depth) auto
    from r ne have "nbest = sorted_reverse score ended_hyps"
      unfolding dp by (simp only: recognize_beam_Suc [OF v s] if_False simp_thms prod.inject
          sum.inject)
    with hyp have "hyp \<in> set ended_hyps" by (simp add: set_sorted_reverse)
    with 4 a show "\<not> length (yseq hyp) < 5 \<and> 5 < length (yseq hyp)" by blast
  qed
  have 6: "\<forall>depth st ra d z cl nbest st'.
            recognize_beam depth self hlp d z st ra cl lm = (Inr nbest, st')
            \<longrightarrow> (\<forall>hyp\<in>set nbest.
                   minlen_of (if length st' = length st then st ! ra else last st') (shape0 d)
                     < int (length (yseq hyp)))"
    using recognize_beam_last_pass by blast
  from 1 2 3 4 5 6 show ?thesis by (intro conjI)
qed

text \<open>
  Claim C10. \<^verbatim>\<open>recognize_beam\<close> changes no object that exists when it is called: the store
  it returns extends the given one, so the caller's \<^verbatim>\<open>recog_args\<close>, and its
  \<^verbatim>\<open>minlenratio\<close>, are as before, after any number of retries.
\<close>

theorem caller_args_unchanged:
  "take (length st) (snd (recognize_beam depth self hlp h lpz st recog_args char_list lm)) = st
   \<and> (recog_args < length st \<longrightarrow>
        snd (recognize_beam depth self hlp h lpz st recog_args char_list lm) ! recog_args
          = st ! recog_args)
   \<and> (\<forall>a<length st.
        snd (recognize_beam depth self hlp h lpz st recog_args char_list lm) ! a = st ! a)"
proof -
  let ?st' = "snd (recognize_beam depth self hlp h lpz st recog_args char_list lm)"
  have t: "take (length st) ?st' = st" by (rule recognize_beam_store)
  have n: "?st' ! a = st ! a" if "a < length st" for a
  proof -
    from that have "take (length st) ?st' ! a = ?st' ! a" by simp
    with t show ?thesis by simp
  qed
  from t n show ?thesis by blast
qed

subsection \<open>recognize and the CTC weight\<close>

text \<open>Without a posterior the search does not read the CTC weight.\<close>

lemma expand_hyp_no_ctc_weight:
  "expand_hyp self h None (args\<lparr>ctc_weight := w\<rparr>) lm i hyp = expand_hyp self h None args lm i hyp"
  by (simp add: expand_hyp_def cong: sum.case_cong)

lemma end_score_ctc_weight:
  "end_score (args\<lparr>ctc_weight := w\<rparr>) lm i hyp = end_score args lm i hyp"
  by (simp add: end_score_def cong: option.case_cong)

lemma split_ended_ctc_weight:
  "split_ended e minlen (args\<lparr>ctc_weight := w\<rparr>) lm i hyps ended remained
     = split_ended e minlen args lm i hyps ended remained"
  by (induction hyps arbitrary: ended remained) (simp_all add: end_score_ctc_weight)

lemma step_no_ctc_weight:
  "step self hlp h None (args\<lparr>ctc_weight := w\<rparr>) char_list lm maxlen minlen
     = step self hlp h None args char_list lm maxlen minlen"
proof (intro ext)
  fix i hyps ended
  have e: "expand_hyp self h None (args\<lparr>ctc_weight := w\<rparr>) lm i = expand_hyp self h None args lm i"
    by (intro ext) (rule expand_hyp_no_ctc_weight)
  show "step self hlp h None (args\<lparr>ctc_weight := w\<rparr>) char_list lm maxlen minlen i hyps ended
          = step self hlp h None args char_list lm maxlen minlen i hyps ended"
    unfolding step_def e split_ended_ctc_weight
    by (simp cong: sum.case_cong option.case_cong)
qed

lemma search_no_ctc_weight:
  "search self hlp h None (args\<lparr>ctc_weight := w\<rparr>) char_list lm
     = search self hlp h None args char_list lm"
  unfolding search_def Let_def option.map step_no_ctc_weight
  by (simp add: maxlen_of_def minlen_of_def)

lemma recognize_beam_no_ctc_weight:
  assumes "a1 < length st1" and "a2 < length st2"
    and "st2 ! a2 = (st1 ! a1)\<lparr>ctc_weight := w\<rparr>"
  shows "fst (recognize_beam depth self hlp h None st2 a2 char_list lm)
           = fst (recognize_beam depth self hlp h None st1 a1 char_list lm)"
  using assms
proof (induction depth arbitrary: st1 a1 st2 a2)
  case 0
  show ?case by simp
next
  case (Suc depth)
  have s: "search self hlp h None (st2 ! a2) char_list lm
             = search self hlp h None (st1 ! a1) char_list lm"
    unfolding Suc.prems(3) by (rule search_no_ctc_weight)
  show ?case
  proof (cases "search self hlp h None (st1 ! a1) char_list lm")
    case (Inl e)
    with s Suc.prems(1,2) show ?thesis by simp
  next
    case (Inr ended_hyps)
    from Inr s have Inr2: "search self hlp h None (st2 ! a2) char_list lm = Inr ended_hyps"
      by simp
    note r1 = recognize_beam_Suc [OF Suc.prems(1) Inr, of depth]
    note r2 = recognize_beam_Suc [OF Suc.prems(2) Inr2, of depth]
    show ?thesis
    proof (cases "ended_hyps = []")
      case True
      let ?st1 = "st1 @ [(st1 ! a1)\<lparr>minlenratio := max 0 (minlenratio (st1 ! a1) - 0.1)\<rparr>]"
      let ?st2 = "st2 @ [(st2 ! a2)\<lparr>minlenratio := max 0 (minlenratio (st2 ! a2) - 0.1)\<rparr>]"
      have "fst (recognize_beam depth self hlp h None ?st2 (length st2) char_list lm)
              = fst (recognize_beam depth self hlp h None ?st1 (length st1) char_list lm)"
      proof (rule Suc.IH)
        show "length st1 < length ?st1" by simp
        show "length st2 < length ?st2" by simp
        show "?st2 ! length st2 = (?st1 ! length st1)\<lparr>ctc_weight := w\<rparr>"
          by (simp add: Suc.prems(3))
      qed
      with True show ?thesis by (simp only: r1 r2 if_True simp_thms)
    next
      case False
      then show ?thesis by (simp only: r1 r2 if_False simp_thms fst_conv)
    qed
  qed
qed

text \<open>
  Claim C8, as the code has it. Nothing is checked before the search: with a CTC weight that
  is not positive, a negative one included, \<^verbatim>\<open>recognize\<close> searches without CTC and returns
  what it returns for the weight 0; with a positive weight, one above 1 included, it passes
  the posterior of the CTC head to \<^verbatim>\<open>recognize_beam\<close> as it is.
\<close>

theorem ctc_weight_unchecked:
  "(recog_args < length st \<and> ctc_weight (st ! recog_args) \<le> 0 \<longrightarrow>
      fst (recognize depth self hlp x_block st recog_args char_list lm)
        = fst (recognize depth self hlp x_block
                 (st[recog_args := (st ! recog_args)\<lparr>ctc_weight := 0\<rparr>]) recog_args char_list lm))
   \<and> (recog_args < length st \<and> 0 < ctc_weight (st ! recog_args) \<longrightarrow>
        recognize depth self hlp x_block st recog_args char_list lm
          = (case ctc self of
               None \<Rightarrow> (Inl AttributeError, st)
             | Some log_softmax \<Rightarrow>
                 recognize_beam depth self hlp (encoder self x_block)
                   (Some (log_softmax (encoder self x_block))) st recog_args char_list
                   (if lm_weight (st ! recog_args) = 0 then None else lm)))"
proof (intro conjI impI)
  assume a: "recog_args < length st \<and> ctc_weight (st ! recog_args) \<le> 0"
  let ?st0 = "st[recog_args := (st ! recog_args)\<lparr>ctc_weight := 0\<rparr>]"
  let ?lm = "if lm_weight (st ! recog_args) = 0 then None else lm"
  from a have 1: "recognize depth self hlp x_block st recog_args char_list lm
          = recognize_beam depth self hlp (encoder self x_block) None st recog_args char_list ?lm"
    by (simp add: recognize_def Let_def)
  from a have 2: "recognize depth self hlp x_block ?st0 recog_args char_list lm
          = recognize_beam depth self hlp (encoder self x_block) None ?st0 recog_args char_list ?lm"
    by (simp add: recognize_def Let_def)
  have "fst (recognize_beam depth self hlp (encoder self x_block) None ?st0 recog_args char_list ?lm)
      = fst (recognize_beam depth self hlp (encoder self x_block) None st recog_args char_list ?lm)"
    using a by (intro recognize_beam_no_ctc_weight [where w = 0]) simp_all
  with 1 2 show "fst (recognize depth self hlp x_block st recog_args char_list lm)
        = fst (recognize depth self hlp x_block ?st0 recog_args char_list lm)"
    by simp
next
  assume "recog_args < length st \<and> 0 < ctc_weight (st ! recog_args)"
  then show "recognize depth self hlp x_block st recog_args char_list lm
          = (case ctc self of
               None \<Rightarrow> (Inl AttributeError, st)
             | Some log_softmax \<Rightarrow>
                 recognize_beam depth self hlp (encoder self x_block)
                   (Some (log_softmax (encoder self x_block))) st recog_args char_list
                   (if lm_weight (st ! recog_args) = 0 then None else lm))"
    by (simp add: recognize_def Let_def split: option.splits)
qed

subsection \<open>An empty beam\<close>

text \<open>
  Claim C5, as the code has it. A step that leaves no hypothesis stops the loop, and when
  nothing has ended by then the search ends with the empty list; \<^verbatim>\<open>recognize_beam\<close> then
  does not return: it calls itself with \<^verbatim>\<open>minlenratio\<close> reduced by 0.1 and not below 0.
  A list that \<^verbatim>\<open>recognize_beam\<close> returns is never empty.
\<close>

theorem empty_beam_retries:
  fixes maxlen minlen :: int
  shows "(\<forall>nbest st'. recognize_beam depth self hlp h lpz st recog_args char_list lm
                         = (Inr nbest, st') \<longrightarrow> nbest \<noteq> [])
   \<and> (\<forall>ended' hyps' continue.
         step self hlp h cps args char_list lm maxlen minlen i hyps ended
           = Inr (ended', hyps', continue) \<and> hyps' = [] \<longrightarrow> \<not> continue)
   \<and> (\<forall>body js hyps'.
         body i hyps [] = Inr ([], hyps', False) \<longrightarrow> steps body (i # js) hyps [] = Inr [])
   \<and> (recog_args < length st
        \<and> search self hlp h lpz (st ! recog_args) char_list lm = Inr []
       \<longrightarrow> recognize_beam (Suc depth) self hlp h lpz st recog_args char_list lm
             = recognize_beam depth self hlp h lpz
                 (st @ [(st ! recog_args)\<lparr>minlenratio :=
                           max 0 (minlenratio (st ! recog_args) - 0.1)\<rparr>])
                 (length st) char_list lm)"
proof (intro conjI allI impI)
  fix nbest st'
  assume "recognize_beam depth self hlp h lpz st recog_args char_list lm = (Inr nbest, st')"
  then show "nbest \<noteq> []" by (rule recognize_beam_nonempty)
next
  fix ended' hyps' continue
  assume a: "step self hlp h cps args char_list lm maxlen minlen i hyps ended
               = Inr (ended', hyps', continue) \<and> hyps' = []"
  then have st: "step self hlp h cps args char_list lm maxlen minlen i hyps ended
               = Inr (ended', hyps', continue)" and e: "hyps' = []"
    by simp_all
  from step_Inr_pruned [OF st] obtain kept
    where pr: "prune (expand_hyp self h cps args lm i) (beam_size args) hyps [] = Inr kept" ..
  define pruned where "pruned = (if int i = maxlen - 1 then add_eos (eos self) kept else kept)"
  define E where "E = ended @ map (\<lambda>hyp. hyp\<lparr>score := end_score args lm i hyp\<rparr>)
                     (filter (\<lambda>hyp. last (yseq hyp) = eos self \<and> minlen < int (length (yseq hyp)))
                        pruned)"
  define R where "R = filter (\<lambda>hyp. last (yseq hyp) \<noteq> eos self) pruned"
  from st have "continue \<longrightarrow> hyps' = R \<and> R \<noteq> []"
    unfolding step_pruned(2) [OF pr pruned_def E_def R_def]
    by (auto split: option.splits if_splits)
  with e show "\<not> continue" by auto
next
  fix body :: "nat \<Rightarrow> ('a, 'b) hyp list \<Rightarrow> ('a, 'b) hyp list
                 \<Rightarrow> py_error + (('a, 'b) hyp list \<times> ('a, 'b) hyp list \<times> bool)"
    and js hyps'
  assume "body i hyps [] = Inr ([], hyps', False)"
  then show "steps body (i # js) hyps [] = Inr []" by (rule steps_beam_empty)
next
  assume "recog_args < length st
          \<and> search self hlp h lpz (st ! recog_args) char_list lm = Inr []"
  then have v: "recog_args < length st"
    and s: "search self hlp h lpz (st ! recog_args) char_list lm = Inr []"
    by simp_all
  show "recognize_beam (Suc depth) self hlp h lpz st recog_args char_list lm
             = recognize_beam depth self hlp h lpz
                 (st @ [(st ! recog_args)\<lparr>minlenratio :=
                           max 0 (minlenratio (st ! recog_args) - 0.1)\<rparr>])
                 (length st) char_list lm"
    by (simp only: recognize_beam_Suc [OF v s, of depth] if_True simp_thms)
qed

text \<open>
  The beam is empty after the first step and nothing has ended, and the result is not the
  empty list: 10 frames, \<^verbatim>\<open>minlenratio = 0.5\<close>, a beam of 1 and a decoder that prefers the
  end token; the hypothesis of 2 tokens is returned by the fifth retry.
\<close>

theorem empty_beam_counterexample:
  "step (toy_e2e [-4, -2, -3, -1] 10) (toy_helpers []) (toy_h 10) None (toy_args 1 0 0 0 0.5)
     None (None :: unit rnnlm option) (maxlen_of (toy_args 1 0 0 0 0.5) 10)
     (minlen_of (toy_args 1 0 0 0 0.5) 10) 0 [init_hyp 3 None] [] = Inr ([], [], False)
   \<and> fst (recognize_beam 1000 (toy_e2e [-4, -2, -3, -1] 10) (toy_helpers []) (toy_h 10) None
        [toy_args 1 0 0 0 0.5] 0 None (None :: unit rnnlm option))
      = Inr [toy_hyp (-1) [3, 3]]
   \<and> fst (recognize_beam 1000 (toy_e2e [-4, -2, -3, -1] 10) (toy_helpers []) (toy_h 10) None
        [toy_args 1 0 0 0 0.5] 0 None (None :: unit rnnlm option))
      \<noteq> Inr []"
  by code_simp

text \<open>
  A hypothesis of 2 tokens is returned for \<^verbatim>\<open>minlenratio = 0.5\<close> on 10 frames: a beam of 1
  and a decoder that prefers the end token; every pass down to the ratio 0.2 ends with
  nothing, and the pass with the ratio 0.1, whose \<^verbatim>\<open>minlen\<close> is 1, ends with it.
\<close>

theorem minlen_retry_counterexample:
  "minlenratio ([toy_args 1 0 0 0 0.5] ! 0) = 0.5 \<and> shape0 (toy_h 10) = 10
   \<and> recognize_beam 1000 (toy_e2e [-3, -2, -1] 10) (toy_helpers []) (toy_h 10) None
        [toy_args 1 0 0 0 0.5] 0 None (None :: unit rnnlm option)
      = (Inr [toy_hyp (-1) [2, 2]],
         [toy_args 1 0 0 0 0.5, toy_args 1 0 0 0 0.4, toy_args 1 0 0 0 0.3,
          toy_args 1 0 0 0 0.2, toy_args 1 0 0 0 0.1])
   \<and> length (yseq (toy_hyp (-1) [2, 2])) < 5"
  by code_simp

section \<open>Concrete runs\<close>

text \<open>A beam of 2 on 2 frames, without CTC: the first step.\<close>

theorem beam_size_invariant_witness:
  "0 \<le> beam_size (toy_args 2 0 0 0 0)
   \<and> prune (expand_hyp (toy_e2e [-4, -1, -2, -3] 2) (toy_h 2) None (toy_args 2 0 0 0 0)
               (None :: unit rnnlm option) 0)
        (beam_size (toy_args 2 0 0 0 0)) [init_hyp 3 None] []
      = Inr [toy_hyp (-1) [3, 1], toy_hyp (-2) [3, 2]]
   \<and> int (length [toy_hyp (-1) [3, 1], toy_hyp (-2) [3, 2]]) \<le> beam_size (toy_args 2 0 0 0 0)
   \<and> step (toy_e2e [-4, -1, -2, -3] 2) (toy_helpers []) (toy_h 2) None (toy_args 2 0 0 0 0)
        None (None :: unit rnnlm option) 2 0 0 [init_hyp 3 None] []
      = Inr ([], [toy_hyp (-1) [3, 1], toy_hyp (-2) [3, 2]], True)"
proof -
  have h0: "0 \<le> beam_size (toy_args 2 0 0 0 0)" by code_simp
  have pr: "prune (expand_hyp (toy_e2e [-4, -1, -2, -3] 2) (toy_h 2) None (toy_args 2 0 0 0 0)
               (None :: unit rnnlm option) 0)
        (beam_size (toy_args 2 0 0 0 0)) [init_hyp 3 None] []
      = Inr [toy_hyp (-1) [3, 1], toy_hyp (-2) [3, 2]]"
    by code_simp
  have st: "step (toy_e2e [-4, -1, -2, -3] 2) (toy_helpers []) (toy_h 2) None (toy_args 2 0 0 0 0)
        None (None :: unit rnnlm option) 2 0 0 [init_hyp 3 None] []
      = Inr ([], [toy_hyp (-1) [3, 1], toy_hyp (-2) [3, 2]], True)"
    by code_simp
  from beam_size_invariant [OF h0, THEN conjunct1, rule_format, OF pr]
  have l: "int (length [toy_hyp (-1) [3, 1], toy_hyp (-2) [3, 2]])
             \<le> beam_size (toy_args 2 0 0 0 0)" .
  from h0 pr l st show ?thesis by (intro conjI)
qed

text \<open>One frame: the first step is the last, and both hypotheses get the end token.\<close>

theorem force_eos_witness:
  "int (0::nat) = 1 - 1
   \<and> prune (expand_hyp (toy_e2e [-4, -1, -2, -3] 1) (toy_h 1) None (toy_args 2 0 0 0 0)
               (None :: unit rnnlm option) 0)
        (beam_size (toy_args 2 0 0 0 0)) [init_hyp 3 None] []
      = Inr [toy_hyp (-1) [3, 1], toy_hyp (-2) [3, 2]]
   \<and> step (toy_e2e [-4, -1, -2, -3] 1) (toy_helpers []) (toy_h 1) None (toy_args 2 0 0 0 0)
        None (None :: unit rnnlm option) 1 0 0 [init_hyp 3 None] []
      = Inr ([toy_hyp (-1) [3, 1, 3], toy_hyp (-2) [3, 2, 3]], [], False)
   \<and> split_ended (eos (toy_e2e [-4, -1, -2, -3] 1)) 0 (toy_args 2 0 0 0 0)
        (None :: unit rnnlm option) 0
        (add_eos (eos (toy_e2e [-4, -1, -2, -3] 1)) [toy_hyp (-1) [3, 1], toy_hyp (-2) [3, 2]])
        [] []
      = Inr ([toy_hyp (-1) [3, 1, 3], toy_hyp (-2) [3, 2, 3]], [])"
proof -
  have final: "int (0::nat) = 1 - 1" by simp
  have pr: "prune (expand_hyp (toy_e2e [-4, -1, -2, -3] 1) (toy_h 1) None (toy_args 2 0 0 0 0)
               (None :: unit rnnlm option) 0)
        (beam_size (toy_args 2 0 0 0 0)) [init_hyp 3 None] []
      = Inr [toy_hyp (-1) [3, 1], toy_hyp (-2) [3, 2]]"
    by code_simp
  have st: "step (toy_e2e [-4, -1, -2, -3] 1) (toy_helpers []) (toy_h 1) None (toy_args 2 0 0 0 0)
        None (None :: unit rnnlm option) 1 0 0 [init_hyp 3 None] []
      = Inr ([toy_hyp (-1) [3, 1, 3], toy_hyp (-2) [3, 2, 3]], [], False)"
    by code_simp
  from force_eos [OF final pr, THEN conjunct1, rule_format, OF st]
  have se: "split_ended (eos (toy_e2e [-4, -1, -2, -3] 1)) 0 (toy_args 2 0 0 0 0)
        (None :: unit rnnlm option) 0
        (add_eos (eos (toy_e2e [-4, -1, -2, -3] 1)) [toy_hyp (-1) [3, 1], toy_hyp (-2) [3, 2]])
        [] []
      = Inr ([toy_hyp (-1) [3, 1, 3], toy_hyp (-2) [3, 2, 3]], [])"
    by blast
  from final pr st se show ?thesis by (intro conjI)
qed

text \<open>
  10 frames, \<^verbatim>\<open>minlenratio = 0.5\<close>, \<^verbatim>\<open>maxlenratio = 0.6\<close>, a beam of 2: the hypothesis
  that ends at the first step is dropped, and the three that end later have 6 and 8 tokens
  and are returned. With a beam of 1 the fifth retry returns a hypothesis of 2 tokens, which
  is longer than the \<^verbatim>\<open>minlen\<close> of that pass.
\<close>

theorem completion_filtering_witness:
  "prune (expand_hyp (toy_e2e [-4, -2, -3, -1] 10) (toy_h 10) None (toy_args 2 0 0 0.6 0.5)
            (None :: unit rnnlm option) 0)
     (beam_size (toy_args 2 0 0 0.6 0.5)) [init_hyp 3 None] []
     = Inr [toy_hyp (-1) [3, 3], toy_hyp (-2) [3, 1]]
   \<and> split_ended (eos (toy_e2e [-4, -2, -3, -1] 10)) 5 (toy_args 2 0 0 0.6 0.5)
        (None :: unit rnnlm option) 0 [toy_hyp (-1) [3, 3], toy_hyp (-2) [3, 1]] [] []
      = Inr ([], [toy_hyp (-2) [3, 1]])
   \<and> minlenratio (toy_args 2 0 0 0.6 0.5) = 0.5 \<and> shape0 (toy_h 10) = 10
   \<and> search (toy_e2e [-4, -2, -3, -1] 10) (toy_helpers []) (toy_h 10) None
        (toy_args 2 0 0 0.6 0.5) None (None :: unit rnnlm option)
      = Inr [toy_hyp (-9) [3, 1, 1, 1, 1, 3], toy_hyp (-11) [3, 1, 1, 1, 1, 1, 3, 3],
             toy_hyp (-12) [3, 1, 1, 1, 1, 1, 1, 3]]
   \<and> 5 < length (yseq (toy_hyp (-9) [3, 1, 1, 1, 1, 3]))
   \<and> 5 < length (yseq (toy_hyp (-11) [3, 1, 1, 1, 1, 1, 3, 3]))
   \<and> 5 < length (yseq (toy_hyp (-12) [3, 1, 1, 1, 1, 1, 1, 3]))
   \<and> recognize_beam (Suc 0) (toy_e2e [-4, -2, -3, -1] 10) (toy_helpers []) (toy_h 10) None
        [toy_args 2 0 0 0.6 0.5] 0 None (None :: unit rnnlm option)
      = (Inr [toy_hyp (-9) [3, 1, 1, 1, 1, 3], toy_hyp (-11) [3, 1, 1, 1, 1, 1, 3, 3],
              toy_hyp (-12) [3, 1, 1, 1, 1, 1, 1, 3]], [toy_args 2 0 0 0.6 0.5])
   \<and> recognize_beam 6 (toy_e2e [-4, -2, -3, -1] 10) (toy_helpers []) (toy_h 10) None
        [toy_args 1 0 0 0 0.5] 0 None (None :: unit rnnlm option)
      = (Inr [toy_hyp (-1) [3, 3]],
         [toy_args 1 0 0 0 0.5, toy_args 1 0 0 0 0.4, toy_args 1 0 0 0 0.3,
          toy_args 1 0 0 0 0.2, toy_args 1 0 0 0 0.1])
   \<and> minlen_of (toy_args 1 0 0 0 0.1) (shape0 (toy_h 10))
       < int (length (yseq (toy_hyp (-1) [3, 3])))"
proof -
  have pr: "prune (expand_hyp (toy_e2e [-4, -2, -3, -1] 10) (toy_h 10) None (toy_args 2 0 0 0.6 0.5)
            (None :: unit rnnlm option) 0)
     (beam_size (toy_args 2 0 0 0.6 0.5)) [init_hyp 3 None] []
     = Inr [toy_hyp (-1) [3, 3], toy_hyp (-2) [3, 1]]"
    by code_simp
  have se: "split_ended (eos (toy_e2e [-4, -2, -3, -1] 10)) 5 (toy_args 2 0 0 0.6 0.5)
        (None :: unit rnnlm option) 0 [toy_hyp (-1) [3, 3], toy_hyp (-2) [3, 1]] [] []
      = Inr ([], [toy_hyp (-2) [3, 1]])"
    by code_simp
  have m: "minlenratio (toy_args 2 0 0 0.6 0.5) = 0.5" by code_simp
  have d: "shape0 (toy_h 10) = 10" by code_simp
  have s: "search (toy_e2e [-4, -2, -3, -1] 10) (toy_helpers []) (toy_h 10) None
        (toy_args 2 0 0 0.6 0.5) None (None :: unit rnnlm option)
      = Inr [toy_hyp (-9) [3, 1, 1, 1, 1, 3], toy_hyp (-11) [3, 1, 1, 1, 1, 1, 3, 3],
             toy_hyp (-12) [3, 1, 1, 1, 1, 1, 1, 3]]"
    by code_simp
  from m d s have c: "minlenratio (toy_args 2 0 0 0.6 0.5) = 0.5 \<and> shape0 (toy_h 10) = 10
      \<and> search (toy_e2e [-4, -2, -3, -1] 10) (toy_helpers []) (toy_h 10) None
        (toy_args 2 0 0 0.6 0.5) None (None :: unit rnnlm option)
      = Inr [toy_hyp (-9) [3, 1, 1, 1, 1, 3], toy_hyp (-11) [3, 1, 1, 1, 1, 1, 3, 3],
             toy_hyp (-12) [3, 1, 1, 1, 1, 1, 1, 3]]"
    by (intro conjI)
  note long = completion_filtering [OF pr, THEN conjunct2, THEN conjunct2, THEN conjunct2,
      THEN conjunct1, rule_format, OF c, THEN conjunct2]
  have l: "5 < length (yseq (toy_hyp (-9) [3, 1, 1, 1, 1, 3]))"
    "5 < length (yseq (toy_hyp (-11) [3, 1, 1, 1, 1, 1, 3, 3]))"
    "5 < length (yseq (toy_hyp (-12) [3, 1, 1, 1, 1, 1, 1, 3]))"
    by (rule long, simp)+
  have r1: "recognize_beam (Suc 0) (toy_e2e [-4, -2, -3, -1] 10) (toy_helpers []) (toy_h 10) None
        [toy_args 2 0 0 0.6 0.5] 0 None (None :: unit rnnlm option)
      = (Inr [toy_hyp (-9) [3, 1, 1, 1, 1, 3], toy_hyp (-11) [3, 1, 1, 1, 1, 1, 3, 3],
              toy_hyp (-12) [3, 1, 1, 1, 1, 1, 1, 3]], [toy_args 2 0 0 0.6 0.5])"
    by code_simp
  have c1: "0 < length [toy_args 2 0 0 0.6 0.5]
      \<and> minlenratio ([toy_args 2 0 0 0.6 0.5] ! 0) = 0.5 \<and> shape0 (toy_h 10) = 10
      \<and> search (toy_e2e [-4, -2, -3, -1] 10) (toy_helpers []) (toy_h 10) None
            ([toy_args 2 0 0 0.6 0.5] ! 0) None (None :: unit rnnlm option)
          = Inr [toy_hyp (-9) [3, 1, 1, 1, 1, 3], toy_hyp (-11) [3, 1, 1, 1, 1, 1, 3, 3],
                 toy_hyp (-12) [3, 1, 1, 1, 1, 1, 1, 3]]
      \<and> [toy_hyp (-9) [3, 1, 1, 1, 1, 3], toy_hyp (-11) [3, 1, 1, 1, 1, 1, 3, 3],
           toy_hyp (-12) [3, 1, 1, 1, 1, 1, 1, 3]] \<noteq> []
      \<and> recognize_beam (Suc 0) (toy_e2e [-4, -2, -3, -1] 10) (toy_helpers []) (toy_h 10) None
            [toy_args 2 0 0 0.6 0.5] 0 None (None :: unit rnnlm option)
          = (Inr [toy_hyp (-9) [3, 1, 1, 1, 1, 3], toy_hyp (-11) [3, 1, 1, 1, 1, 1, 3, 3],
                  toy_hyp (-12) [3, 1, 1, 1, 1, 1, 1, 3]], [toy_args 2 0 0 0.6 0.5])"
    using m d s r1 by simp
  note first = completion_filtering [OF pr, THEN conjunct2, THEN conjunct2, THEN conjunct2,
      THEN conjunct2, THEN conjunct1, rule_format, OF c1, THEN conjunct2]
  have l1: "5 < length (yseq (toy_hyp (-12) [3, 1, 1, 1, 1, 1, 1, 3]))"
    by (rule first) simp
  have r2: "recognize_beam 6 (toy_e2e [-4, -2, -3, -1] 10) (toy_helpers []) (toy_h 10) None
        [toy_args 1 0 0 0 0.5] 0 None (None :: unit rnnlm option)
      = (Inr [toy_hyp (-1) [3, 3]],
         [toy_args 1 0 0 0 0.5, toy_args 1 0 0 0 0.4, toy_args 1 0 0 0 0.3,
          toy_args 1 0 0 0 0.2, toy_args 1 0 0 0 0.1])"
    by code_simp
  have mem: "toy_hyp (-1) [3, 3] \<in> set [toy_hyp (-1) [3, 3]]" by simp
  from completion_filtering [OF pr, THEN conjunct2, THEN conjunct2, THEN conjunct2,
      THEN conjunct2, THEN conjunct2, rule_format, OF r2 mem]
  have l2: "minlen_of (toy_args 1 0 0 0 0.1) (shape0 (toy_h 10))
              < int (length (yseq (toy_hyp (-1) [3, 3])))"
    by simp
  from pr se m d s l r1 r2 l2 show ?thesis by (intro conjI)
qed

text \<open>4 frames, one step: the end token is selected and appended once more.\<close>

theorem double_eos_witness:
  "int (0::nat) = 1 - 1
   \<and> prune (expand_hyp (toy_e2e [-4, -2, -3, -1] 4) (toy_h 4) None (toy_args 1 0 0 0.25 0.5)
               (None :: unit rnnlm option) 0)
        (beam_size (toy_args 1 0 0 0.25 0.5)) [init_hyp 3 None] []
      = Inr [toy_hyp (-1) [3, 3]]
   \<and> toy_hyp (-1) [3, 3] \<in> set [toy_hyp (-1) [3, 3]]
   \<and> last (yseq (toy_hyp (-1) [3, 3])) = eos (toy_e2e [-4, -2, -3, -1] 4)
   \<and> step (toy_e2e [-4, -2, -3, -1] 4) (toy_helpers []) (toy_h 4) None (toy_args 1 0 0 0.25 0.5)
        None (None :: unit rnnlm option) 1 2 0 [init_hyp 3 None] []
      = Inr ([toy_hyp (-1) [3, 3, 3]], [], False)
   \<and> (toy_hyp (-1) [3, 3])\<lparr>yseq := yseq (toy_hyp (-1) [3, 3]) @ [eos (toy_e2e [-4, -2, -3, -1] 4)],
         score := end_score (toy_args 1 0 0 0.25 0.5) (None :: unit rnnlm option) 0
                    (toy_hyp (-1) [3, 3])\<rparr>
       \<in> set [toy_hyp (-1) [3, 3, 3]]"
proof -
  have final: "int (0::nat) = 1 - 1" by simp
  have pr: "prune (expand_hyp (toy_e2e [-4, -2, -3, -1] 4) (toy_h 4) None (toy_args 1 0 0 0.25 0.5)
               (None :: unit rnnlm option) 0)
        (beam_size (toy_args 1 0 0 0.25 0.5)) [init_hyp 3 None] []
      = Inr [toy_hyp (-1) [3, 3]]"
    by code_simp
  have mem: "toy_hyp (-1) [3, 3] \<in> set [toy_hyp (-1) [3, 3]]" by simp
  have e: "last (yseq (toy_hyp (-1) [3, 3])) = eos (toy_e2e [-4, -2, -3, -1] 4)" by code_simp
  have st: "step (toy_e2e [-4, -2, -3, -1] 4) (toy_helpers []) (toy_h 4) None
        (toy_args 1 0 0 0.25 0.5) None (None :: unit rnnlm option) 1 2 0 [init_hyp 3 None] []
      = Inr ([toy_hyp (-1) [3, 3, 3]], [], False)"
    by code_simp
  have long: "2 < int (length (yseq (toy_hyp (-1) [3, 3]))) + 1" by code_simp
  from double_eos [OF final pr mem e, THEN conjunct2, THEN conjunct2, THEN conjunct1,
      rule_format, OF st, THEN conjunct1, THEN mp, OF long]
  have r: "(toy_hyp (-1) [3, 3])\<lparr>yseq := yseq (toy_hyp (-1) [3, 3])
                                     @ [eos (toy_e2e [-4, -2, -3, -1] 4)],
         score := end_score (toy_args 1 0 0 0.25 0.5) (None :: unit rnnlm option) 0
                    (toy_hyp (-1) [3, 3])\<rparr>
       \<in> set [toy_hyp (-1) [3, 3, 3]]" .
  from final pr mem e st r show ?thesis by (intro conjI)
qed

text \<open>
  A search whose ended list is not in order is returned sorted, and a search that ends with
  nothing is repeated with \<^verbatim>\<open>minlenratio = 0.4\<close>.
\<close>

theorem nbest_or_retry_witness:
  "0 < length [(toy_args 2 0 0 0 0)\<lparr>penalty := 3\<rparr>]
   \<and> search (toy_e2e [-4, -2, -3, -1] 3) (toy_helpers []) (toy_h 3) None
        ([(toy_args 2 0 0 0 0)\<lparr>penalty := 3\<rparr>] ! 0) None (None :: unit rnnlm option)
      = Inr [toy_hyp 2 [3, 3], toy_hyp 3 [3, 1, 3], toy_hyp 4 [3, 1, 1, 3, 3],
             toy_hyp 3 [3, 1, 1, 1, 3]]
   \<and> recognize_beam (Suc 0) (toy_e2e [-4, -2, -3, -1] 3) (toy_helpers []) (toy_h 3) None
        [(toy_args 2 0 0 0 0)\<lparr>penalty := 3\<rparr>] 0 None (None :: unit rnnlm option)
      = (Inr [toy_hyp 4 [3, 1, 1, 3, 3], toy_hyp 3 [3, 1, 3], toy_hyp 3 [3, 1, 1, 1, 3],
              toy_hyp 2 [3, 3]],
         [(toy_args 2 0 0 0 0)\<lparr>penalty := 3\<rparr>])
   \<and> 0 < length [toy_args 1 0 0 0 0.5]
   \<and> search (toy_e2e [-4, -2, -3, -1] 10) (toy_helpers []) (toy_h 10) None
        ([toy_args 1 0 0 0 0.5] ! 0) None (None :: unit rnnlm option) = Inr []
   \<and> recognize_beam (Suc 5) (toy_e2e [-4, -2, -3, -1] 10) (toy_helpers []) (toy_h 10) None
        [toy_args 1 0 0 0 0.5] 0 None (None :: unit rnnlm option)
      = recognize_beam 5 (toy_e2e [-4, -2, -3, -1] 10) (toy_helpers []) (toy_h 10) None
          [toy_args 1 0 0 0 0.5, toy_args 1 0 0 0 0.4] 1 None (None :: unit rnnlm option)
   \<and> 1 \<le> beam_size ([toy_args 1 0 0 0 0.5] ! 0)
   \<and> 1 \<le> maxlen_of ([toy_args 1 0 0 0 0.5] ! 0) (shape0 (toy_h 10))
   \<and> 0 \<le> minlenratio ([toy_args 1 0 0 0 0.5] ! 0)
   \<and> 10 * minlenratio ([toy_args 1 0 0 0 0.5] ! 0) + 1 \<le> real 6
   \<and> fst (recognize_beam 6 (toy_e2e [-4, -2, -3, -1] 10) (toy_helpers []) (toy_h 10) None
        [toy_args 1 0 0 0 0.5] 0 None (None :: unit rnnlm option)) \<noteq> Inl RecursionError"
proof -
  let ?A = "(toy_args 2 0 0 0 0)\<lparr>penalty := 3\<rparr>" and ?B = "toy_args 1 0 0 0 0.5"
  let ?ended = "[toy_hyp 2 [3, 3], toy_hyp 3 [3, 1, 3], toy_hyp 4 [3, 1, 1, 3, 3],
                 toy_hyp 3 [3, 1, 1, 1, 3]]"
  have v1: "0 < length [?A]" by simp
  have s1: "search (toy_e2e [-4, -2, -3, -1] 3) (toy_helpers []) (toy_h 3) None
              ([?A] ! 0) None (None :: unit rnnlm option) = Inr ?ended"
    by code_simp
  have ne: "?ended \<noteq> []" by simp
  have sr: "sorted_reverse score ?ended
              = [toy_hyp 4 [3, 1, 1, 3, 3], toy_hyp 3 [3, 1, 3], toy_hyp 3 [3, 1, 1, 1, 3],
                 toy_hyp 2 [3, 3]]"
    by code_simp
  from nbest_or_retry [OF v1 s1, where depth = 0, THEN conjunct1, THEN mp, OF ne] sr
  have r1: "recognize_beam (Suc 0) (toy_e2e [-4, -2, -3, -1] 3) (toy_helpers []) (toy_h 3) None
              [?A] 0 None (None :: unit rnnlm option)
            = (Inr [toy_hyp 4 [3, 1, 1, 3, 3], toy_hyp 3 [3, 1, 3], toy_hyp 3 [3, 1, 1, 1, 3],
                    toy_hyp 2 [3, 3]], [?A])"
    by auto
  have v2: "0 < length [?B]" by simp
  have s2: "search (toy_e2e [-4, -2, -3, -1] 10) (toy_helpers []) (toy_h 10) None
              ([?B] ! 0) None (None :: unit rnnlm option) = Inr []"
    by code_simp
  have st: "[?B] @ [([?B] ! 0)\<lparr>minlenratio := max 0 (minlenratio ([?B] ! 0) - 0.1)\<rparr>]
              = [?B, toy_args 1 0 0 0 0.4]"
    by code_simp
  from nbest_or_retry [OF v2 s2, where depth = 5, THEN conjunct2, THEN conjunct1, THEN mp,
      OF refl, THEN conjunct1]
  have r2: "recognize_beam (Suc 5) (toy_e2e [-4, -2, -3, -1] 10) (toy_helpers []) (toy_h 10) None
              [?B] 0 None (None :: unit rnnlm option)
            = recognize_beam 5 (toy_e2e [-4, -2, -3, -1] 10) (toy_helpers []) (toy_h 10) None
                [?B, toy_args 1 0 0 0 0.4] 1 None (None :: unit rnnlm option)"
    unfolding st by simp
  have p1: "1 \<le> beam_size ([?B] ! 0)" by code_simp
  have p2: "1 \<le> maxlen_of ([?B] ! 0) (shape0 (toy_h 10))" by code_simp
  have p3: "0 \<le> minlenratio ([?B] ! 0)" by code_simp
  have p4: "10 * minlenratio ([?B] ! 0) + 1 \<le> real 6" by code_simp
  have ed: "\<forall>j. \<not> end_detect (toy_helpers []) [] j"
    by (simp add: toy_helpers_def)
  have ok: "\<forall>m. \<exists>r. search (toy_e2e [-4, -2, -3, -1] 10) (toy_helpers []) (toy_h 10) None
                     (([?B] ! 0)\<lparr>minlenratio := m\<rparr>) None (None :: unit rnnlm option) = Inr r"
    by (intro allI search_plain) (simp_all add: toy_args_def toy_e2e_def)
  from p1 p2 p3 p4 ed ok
  have pre: "1 \<le> beam_size ([?B] ! 0) \<and> 1 \<le> maxlen_of ([?B] ! 0) (shape0 (toy_h 10))
      \<and> 0 \<le> minlenratio ([?B] ! 0) \<and> 10 * minlenratio ([?B] ! 0) + 1 \<le> real 6
      \<and> (\<forall>j. \<not> end_detect (toy_helpers []) [] j)
      \<and> (\<forall>m. \<exists>r. search (toy_e2e [-4, -2, -3, -1] 10) (toy_helpers []) (toy_h 10) None
                     (([?B] ! 0)\<lparr>minlenratio := m\<rparr>) None (None :: unit rnnlm option) = Inr r)"
    by (intro conjI)
  from nbest_or_retry [OF v2 s2, where frames = 6, THEN conjunct2, THEN conjunct2, THEN mp,
      OF pre]
  have r3: "fst (recognize_beam 6 (toy_e2e [-4, -2, -3, -1] 10) (toy_helpers []) (toy_h 10) None
              [?B] 0 None (None :: unit rnnlm option)) \<noteq> Inl RecursionError"
    by auto
  from v1 s1 r1 v2 s2 r2 p1 p2 p3 p4 r3 show ?thesis by (intro conjI)
qed

text \<open>Five retries leave five objects in the store; the first is the caller's.\<close>

theorem caller_args_unchanged_witness:
  "0 < length [toy_args 1 0 0 0 0.5]
   \<and> snd (recognize_beam 6 (toy_e2e [-4, -2, -3, -1] 10) (toy_helpers []) (toy_h 10) None
        [toy_args 1 0 0 0 0.5] 0 None (None :: unit rnnlm option))
      = [toy_args 1 0 0 0 0.5, toy_args 1 0 0 0 0.4, toy_args 1 0 0 0 0.3,
         toy_args 1 0 0 0 0.2, toy_args 1 0 0 0 0.1]
   \<and> snd (recognize_beam 6 (toy_e2e [-4, -2, -3, -1] 10) (toy_helpers []) (toy_h 10) None
        [toy_args 1 0 0 0 0.5] 0 None (None :: unit rnnlm option)) ! 0
      = [toy_args 1 0 0 0 0.5] ! 0"
proof -
  have v: "0 < length [toy_args 1 0 0 0 0.5]" by simp
  have s: "snd (recognize_beam 6 (toy_e2e [-4, -2, -3, -1] 10) (toy_helpers []) (toy_h 10) None
        [toy_args 1 0 0 0 0.5] 0 None (None :: unit rnnlm option))
      = [toy_args 1 0 0 0 0.5, toy_args 1 0 0 0 0.4, toy_args 1 0 0 0 0.3,
         toy_args 1 0 0 0 0.2, toy_args 1 0 0 0 0.1]"
    by code_simp
  from caller_args_unchanged [THEN conjunct2, THEN conjunct1, THEN mp, OF v]
  have u: "snd (recognize_beam 6 (toy_e2e [-4, -2, -3, -1] 10) (toy_helpers []) (toy_h 10) None
        [toy_args 1 0 0 0 0.5] 0 None (None :: unit rnnlm option)) ! 0
      = [toy_args 1 0 0 0 0.5] ! 0" .
  from v s u show ?thesis by (intro conjI)
qed

text \<open>The retries of the run with an empty beam.\<close>

theorem empty_beam_retries_witness:
  "step (toy_e2e [-4, -2, -3, -1] 10) (toy_helpers []) (toy_h 10) None (toy_args 1 0 0 0 0.5)
     None (None :: unit rnnlm option) 10 5 0 [init_hyp 3 None] [] = Inr ([], [], False)
   \<and> 0 < length [toy_args 1 0 0 0 0.5]
   \<and> search (toy_e2e [-4, -2, -3, -1] 10) (toy_helpers []) (toy_h 10) None
        ([toy_args 1 0 0 0 0.5] ! 0) None (None :: unit rnnlm option) = Inr []
   \<and> recognize_beam (Suc 5) (toy_e2e [-4, -2, -3, -1] 10) (toy_helpers []) (toy_h 10) None
        [toy_args 1 0 0 0 0.5] 0 None (None :: unit rnnlm option)
      = recognize_beam 5 (toy_e2e [-4, -2, -3, -1] 10) (toy_helpers []) (toy_h 10) None
          ([toy_args 1 0 0 0 0.5]
             @ [([toy_args 1 0 0 0 0.5] ! 0)\<lparr>minlenratio :=
                   max 0 (minlenratio ([toy_args 1 0 0 0 0.5] ! 0) - 0.1)\<rparr>])
          (length [toy_args 1 0 0 0 0.5]) None (None :: unit rnnlm option)
   \<and> recognize_beam 6 (toy_e2e [-4, -2, -3, -1] 10) (toy_helpers []) (toy_h 10) None
        [toy_args 1 0 0 0 0.5] 0 None (None :: unit rnnlm option)
      = (Inr [toy_hyp (-1) [3, 3]],
         [toy_args 1 0 0 0 0.5, toy_args 1 0 0 0 0.4, toy_args 1 0 0 0 0.3,
          toy_args 1 0 0 0 0.2, toy_args 1 0 0 0 0.1])
   \<and> [toy_hyp (-1) [3, 3]] \<noteq> []"
proof -
  have st: "step (toy_e2e [-4, -2, -3, -1] 10) (toy_helpers []) (toy_h 10) None
     (toy_args 1 0 0 0 0.5) None (None :: unit rnnlm option) 10 5 0 [init_hyp 3 None] []
     = Inr ([], [], False)"
    by code_simp
  have v: "0 < length [toy_args 1 0 0 0 0.5]" by simp
  have s: "search (toy_e2e [-4, -2, -3, -1] 10) (toy_helpers []) (toy_h 10) None
        ([toy_args 1 0 0 0 0.5] ! 0) None (None :: unit rnnlm option) = Inr []"
    by code_simp
  from v s have vs: "0 < length [toy_args 1 0 0 0 0.5]
      \<and> search (toy_e2e [-4, -2, -3, -1] 10) (toy_helpers []) (toy_h 10) None
        ([toy_args 1 0 0 0 0.5] ! 0) None (None :: unit rnnlm option) = Inr []"
    by (intro conjI)
  have r: "recognize_beam 6 (toy_e2e [-4, -2, -3, -1] 10) (toy_helpers []) (toy_h 10) None
        [toy_args 1 0 0 0 0.5] 0 None (None :: unit rnnlm option)
      = (Inr [toy_hyp (-1) [3, 3]],
         [toy_args 1 0 0 0 0.5, toy_args 1 0 0 0 0.4, toy_args 1 0 0 0 0.3,
          toy_args 1 0 0 0 0.2, toy_args 1 0 0 0 0.1])"
    by code_simp
  from empty_beam_retries [THEN conjunct1, rule_format, OF r]
  have ne: "[toy_hyp (-1) [3, 3]] \<noteq> []" .
  from empty_beam_retries [THEN conjunct2, THEN conjunct2, THEN conjunct2, THEN mp, OF vs,
      of 5]
  have re: "recognize_beam (Suc 5) (toy_e2e [-4, -2, -3, -1] 10) (toy_helpers []) (toy_h 10) None
        [toy_args 1 0 0 0 0.5] 0 None (None :: unit rnnlm option)
      = recognize_beam 5 (toy_e2e [-4, -2, -3, -1] 10) (toy_helpers []) (toy_h 10) None
          ([toy_args 1 0 0 0 0.5]
             @ [([toy_args 1 0 0 0 0.5] ! 0)\<lparr>minlenratio :=
                   max 0 (minlenratio ([toy_args 1 0 0 0 0.5] ! 0) - 0.1)\<rparr>])
          (length [toy_args 1 0 0 0 0.5]) None (None :: unit rnnlm option)" .
  from st v s re r ne show ?thesis by (intro conjI)
qed

text \<open>A negative CTC weight, and one above 1.\<close>

theorem ctc_weight_unchecked_witness:
  "0 < length [toy_args 1 (-1) 0 0 0] \<and> ctc_weight ([toy_args 1 (-1) 0 0 0] ! 0) \<le> 0
   \<and> fst (recognize 10 (toy_e2e [-4, -1, -2, -3] 2) (toy_helpers [-5, -5, -5, -1]) ()
        [toy_args 1 (-1) 0 0 0] 0 None (None :: unit rnnlm option))
      = fst (recognize 10 (toy_e2e [-4, -1, -2, -3] 2) (toy_helpers [-5, -5, -5, -1]) ()
        [toy_args 1 0 0 0 0] 0 None (None :: unit rnnlm option))
   \<and> fst (recognize 10 (toy_e2e [-4, -1, -2, -3] 2) (toy_helpers [-5, -5, -5, -1]) ()
        [toy_args 1 (-1) 0 0 0] 0 None (None :: unit rnnlm option))
      = Inr [toy_hyp (-2) [3, 1, 1, 3]]
   \<and> 0 < length [toy_args 1 2 0 0 0] \<and> 0 < ctc_weight ([toy_args 1 2 0 0 0] ! 0)
   \<and> recognize 10 (toy_e2e [-4, -1, -2, -3] 2) (toy_helpers [-5, -5, -5, -1]) ()
        [toy_args 1 2 0 0 0] 0 None (None :: unit rnnlm option)
      = recognize_beam 10 (toy_e2e [-4, -1, -2, -3] 2) (toy_helpers [-5, -5, -5, -1]) (toy_h 2)
          (Some \<lparr>shape = (2, 4), rows = [[-4, -1, -2, -3], [-4, -1, -2, -3]]\<rparr>)
          [toy_args 1 2 0 0 0] 0 None None"
proof -
  let ?M = "toy_e2e [-4, -1, -2, -3] 2" and ?hl = "toy_helpers [-5, -5, -5, -1]"
  have a: "0 < length [toy_args 1 (-1) 0 0 0] \<and> ctc_weight ([toy_args 1 (-1) 0 0 0] ! 0) \<le> 0"
    by code_simp
  have u: "[toy_args 1 (-1) 0 0 0][0 := ([toy_args 1 (-1) 0 0 0] ! 0)\<lparr>ctc_weight := 0\<rparr>]
             = [toy_args 1 0 0 0 0]"
    by code_simp
  from ctc_weight_unchecked [THEN conjunct1, THEN mp, OF a]
  have e: "fst (recognize 10 ?M ?hl () [toy_args 1 (-1) 0 0 0] 0 None (None :: unit rnnlm option))
      = fst (recognize 10 ?M ?hl () [toy_args 1 0 0 0 0] 0 None (None :: unit rnnlm option))"
    unfolding u .
  have r: "fst (recognize 10 ?M ?hl () [toy_args 1 (-1) 0 0 0] 0 None (None :: unit rnnlm option))
      = Inr [toy_hyp (-2) [3, 1, 1, 3]]"
    by code_simp
  have b: "0 < length [toy_args 1 2 0 0 0] \<and> 0 < ctc_weight ([toy_args 1 2 0 0 0] ! 0)"
    by code_simp
  have c: "(case ctc ?M of
               None \<Rightarrow> (Inl AttributeError, [toy_args 1 2 0 0 0])
             | Some log_softmax \<Rightarrow>
                 recognize_beam 10 ?M ?hl (encoder ?M ())
                   (Some (log_softmax (encoder ?M ()))) [toy_args 1 2 0 0 0] 0 None
                   (if lm_weight ([toy_args 1 2 0 0 0] ! 0) = 0 then None
                    else (None :: unit rnnlm option)))
           = recognize_beam 10 ?M ?hl (toy_h 2)
          (Some \<lparr>shape = (2, 4), rows = [[-4, -1, -2, -3], [-4, -1, -2, -3]]\<rparr>)
          [toy_args 1 2 0 0 0] 0 None None"
    by code_simp
  from ctc_weight_unchecked [where depth = 10 and self = ?M and hlp = ?hl and x_block = "()"
      and char_list = None and lm = "None :: unit rnnlm option", THEN conjunct2, THEN mp, OF b]
  have p: "recognize 10 ?M ?hl () [toy_args 1 2 0 0 0] 0 None (None :: unit rnnlm option)
      = recognize_beam 10 ?M ?hl (toy_h 2)
          (Some \<lparr>shape = (2, 4), rows = [[-4, -1, -2, -3], [-4, -1, -2, -3]]\<rparr>)
          [toy_args 1 2 0 0 0] 0 None None"
    unfolding c .
  from a e r b p show ?thesis by (intro conjI) simp_all
qed

text \<open>
  A CTC weight of 2 raises nothing: \<^verbatim>\<open>recognize\<close> returns an N-best list, whose score is
  the combination with the weights -1 and 2.
\<close>

theorem ctc_weight_counterexample:
  "ctc_weight ([toy_args 1 2 0 0 0] ! 0) = 2
   \<and> \<not> (0 \<le> ctc_weight ([toy_args 1 2 0 0 0] ! 0) \<and> ctc_weight ([toy_args 1 2 0 0 0] ! 0) \<le> 1)
   \<and> fst (recognize 1000 (toy_e2e [-4, -1, -2, -3] 2) (toy_helpers [-5, -5, -5, -1]) ()
        [toy_args 1 2 0 0 0] 0 None (None :: unit rnnlm option))
      = Inr [\<lparr>score = -8, yseq = [3, 1, 1, 3], rnnlm_prev = None,
               ctc_state_prev = Some 2, ctc_score_prev = Some (-5)\<rparr>]"
  by code_simp

end
